theory Spec2Isabelle
  imports Main
begin

section \<open>Drive Audit: the resumable batch processor of Code.js\<close>

text \<open>
  A shallow embedding of the batch engine of \<^verbatim>\<open>Code.js\<close>:
  \<^verbatim>\<open>processDriveAuditBatch\<close>, \<^verbatim>\<open>scheduleAuditContinuation\<close>,
  \<^verbatim>\<open>deleteContinuationTriggers\<close>, \<^verbatim>\<open>getDriveFilesBatch\<close>,
  \<^verbatim>\<open>getFilePermissions\<close>, \<^verbatim>\<open>getFileType\<close>, \<^verbatim>\<open>runDriveAudit\<close> and
  \<^verbatim>\<open>cancelRunningAudit\<close>.

  The Apps Script services are an explicit \<open>world\<close> that every function takes and
  returns. What the environment may do:
  \<^item> \<^verbatim>\<open>Drive.Files.list\<close> and \<^verbatim>\<open>Drive.Permissions.list\<close> may throw (the source
    catches both);
  \<^item> the spreadsheet may have no sheet named \<^verbatim>\<open>Drive Audit\<close>, in which case
    \<^verbatim>\<open>getSheetByName\<close> returns null and the next method call on it is a TypeError;
  \<^item> the script properties, the trigger service, the status sheet and the dialogs
    do what they are asked; the handlers the source keeps for their failures
    (in \<^verbatim>\<open>updateAuditStatus\<close>, \<^verbatim>\<open>scheduleAuditContinuation\<close> and
    \<^verbatim>\<open>cancelRunningAudit\<close>) are therefore not reached and not modelled.
  Every external call and every status report is also appended to a log, in program order.
\<close>

subsection \<open>Strings: the JavaScript methods used by getFileType\<close>

fun startsWith :: "string \<Rightarrow> string \<Rightarrow> bool" where
  "startsWith s [] = True"
| "startsWith [] (c # p) = False"
| "startsWith (a # s) (c # p) = (a = c \<and> startsWith s p)"

fun includes_str :: "string \<Rightarrow> string \<Rightarrow> bool" where
  "includes_str [] p = (p = [])"
| "includes_str (a # s) p = (startsWith (a # s) p \<or> includes_str s p)"

text \<open>\<^verbatim>\<open>s.replace(pat, rep)\<close> with a string pattern replaces the first occurrence only.\<close>

fun replace :: "string \<Rightarrow> string \<Rightarrow> string \<Rightarrow> string" where
  "replace [] pat rep = (if pat = [] then rep else [])"
| "replace (a # s) pat rep =
     (if startsWith (a # s) pat then rep @ drop (length pat) (a # s)
      else a # replace s pat rep)"

subsection \<open>Data: files, permissions, rows, the persisted state\<close>

record owner =
  owner_emailAddress :: string

text \<open>
  A file resource as \<^verbatim>\<open>Drive.Files.list\<close> returns it for the requested fields. The
  fields the source tests for presence are optional.
\<close>

record drive_file =
  file_id :: string
  file_name :: string
  mimeType :: string
  owners :: "owner list option"
  createdTime :: "string option"
  modifiedTime :: "string option"
  file_size :: "string option"
  webViewLink :: "string option"

record permission =
  perm_type :: string
  perm_role :: string
  perm_emailAddress :: "string option"
  perm_domain :: "string option"
  perm_displayName :: "string option"

text \<open>A spreadsheet cell: a string, a number or a \<^verbatim>\<open>Date\<close> built from a timestamp string.\<close>

datatype cell = Text string | Number nat | DateValue string

type_synonym row = "cell list"

datatype phase = SETUP | PROCESSING | FINALIZING

text \<open>
  The object kept under the script property \<^verbatim>\<open>AUDIT_STATE\<close> (the JSON text is
  identified with the object it encodes). \<open>startTime\<close> is the clock reading of the
  first invocation.
\<close>

record audit_state =
  phase :: phase
  totalFilesFound :: nat
  filesProcessed :: nat
  auditDataCount :: nat
  pageToken :: "string option"
  startTime :: int

definition BATCH_SIZE :: nat where
  "BATCH_SIZE = 500"

text \<open>\<^verbatim>\<open>4.5 * 60 * 1000\<close> milliseconds.\<close>

definition MAX_EXECUTION_TIME :: int where
  "MAX_EXECUTION_TIME = 270000"

definition CONTINUATION_DELAY_MINUTES :: nat where
  "CONTINUATION_DELAY_MINUTES = 1"

subsection \<open>getFileType\<close>

definition getFileType :: "drive_file \<Rightarrow> string" where
  "getFileType f =
     (let m = mimeType f in
      if m = ''application/vnd.google-apps.folder'' then ''Folder''
      else if startsWith m ''application/vnd.google-apps.'' then
        ''Google '' @ replace (replace m ''application/vnd.google-apps.'' '''') ''-'' '' ''
      else if startsWith m ''image/'' then ''Image''
      else if startsWith m ''video/'' then ''Video''
      else if startsWith m ''audio/'' then ''Audio''
      else if includes_str m ''pdf'' then ''PDF''
      else if includes_str m ''document'' \<or> includes_str m ''text'' then ''Document''
      else if includes_str m ''spreadsheet'' then ''Spreadsheet''
      else if includes_str m ''presentation'' then ''Presentation''
      else ''File'')"

subsection \<open>The rows of one file\<close>

text \<open>\<^verbatim>\<open>x || ''\<close> for an optional string.\<close>

definition or_empty :: "string option \<Rightarrow> string" where
  "or_empty x = (case x of None \<Rightarrow> '''' | Some s \<Rightarrow> s)"

text \<open>\<^verbatim>\<open>t ? new Date(t) : ''\<close>: an absent or empty timestamp gives the empty string.\<close>

definition date_cell :: "string option \<Rightarrow> cell" where
  "date_cell t = (case t of None \<Rightarrow> Text '''' | Some s \<Rightarrow> if s = '''' then Text '''' else DateValue s)"

text \<open>The first nine cells of every row of a file (lines 261-269 and 280-288).\<close>

definition file_cells :: "drive_file \<Rightarrow> row" where
  "file_cells f =
     [Text (file_name f),
      Text (file_id f),
      Text (case owners f of
              None \<Rightarrow> ''Unknown''
            | Some os \<Rightarrow> if length os > 0 then owner_emailAddress (hd os) else ''Unknown''),
      Text (getFileType f),
      Text (mimeType f),
      date_cell (createdTime f),
      date_cell (modifiedTime f),
      Text (or_empty (file_size f)),
      Text (or_empty (webViewLink f))]"

text \<open>The last six cells of the row of one permission (lines 289-294).\<close>

definition permission_cells :: "permission list \<Rightarrow> permission \<Rightarrow> row" where
  "permission_cells permissions p =
     [Number (length permissions),
      Text (perm_type p),
      Text (perm_role p),
      Text (or_empty (perm_emailAddress p)),
      Text (or_empty (perm_domain p)),
      Text (or_empty (perm_displayName p))]"

text \<open>The last six cells of the row of a file without permissions (lines 270-275).\<close>

definition no_permission_cells :: row where
  "no_permission_cells = [Number 0, Text '''', Text '''', Text '''', Text '''', Text '''']"

text \<open>What the body of \<^verbatim>\<open>filesBatch.files.forEach\<close> pushes for one file (lines 259-297).\<close>

definition file_rows :: "drive_file \<Rightarrow> permission list \<Rightarrow> row list" where
  "file_rows f permissions =
     (if length permissions = 0 then [file_cells f @ no_permission_cells]
      else map (\<lambda>p. file_cells f @ permission_cells permissions p) permissions)"

subsection \<open>The world: Drive, clock, script properties, triggers, sheets, log\<close>

datatype error = TypeError

record files_response =
  files :: "drive_file list option"
  nextPageToken :: "string option"

datatype files_result = FilesThrows | FilesOk files_response

text \<open>\<^verbatim>\<open>response.permissions\<close> may be absent.\<close>

datatype permissions_result = PermissionsThrows | PermissionsOk "permission list option"

datatype status = RUNNING | COMPLETED | ERROR | CANCELLED

text \<open>
  The message of a status report, one constructor per message text of the source, with
  the values the text interpolates (the duration in the completion message is left out).
\<close>

datatype message =
    StartingMessage
  | ProcessingMessage
  | ProgressMessage nat
  | ContinuationMessage nat
  | FinalizingMessage
  | CompletedMessage nat nat
  | ErrorMessage error
  | CancelledMessage

datatype button = YES | NO

datatype event =
    BudgetCheck int
  | ListFiles "string option" nat
  | ListPermissions string
  | SetValues "row list"
  | SetProperty audit_state
  | DeleteProperty
  | DeleteTriggers
  | CreateTrigger string nat
  | Status status message nat nat
  | Alert string

text \<open>
  \<open>drive_files\<close> answers \<^verbatim>\<open>Drive.Files.list\<close> for a page token and a page size,
  \<open>drive_permissions\<close> answers \<^verbatim>\<open>Drive.Permissions.list\<close> for a file id.
  \<open>clock k\<close> is the \<open>k\<close>-th reading of \<^verbatim>\<open>new Date().getTime()\<close> that decides
  control flow, \<open>reads\<close> counts the readings made. \<open>AUDIT_STATE\<close> is the script
  property of that name, \<open>triggers\<close> the handler names of the project triggers,
  \<open>audit_sheet\<close> the rows of the sheet \<^verbatim>\<open>Drive Audit\<close> (\<open>None\<close>: no such sheet),
  \<open>summary_sheet\<close> the two totals of the sheet \<^verbatim>\<open>Audit Summary\<close>.
\<close>

record world =
  drive_files :: "string option \<Rightarrow> nat \<Rightarrow> files_result"
  drive_permissions :: "string \<Rightarrow> permissions_result"
  clock :: "nat \<Rightarrow> int"
  reads :: nat
  AUDIT_STATE :: "audit_state option"
  triggers :: "string list"
  audit_sheet :: "row list option"
  summary_sheet :: "(nat \<times> nat) option"
  log :: "event list"

definition emit :: "event \<Rightarrow> world \<Rightarrow> world" where
  "emit e w = w\<lparr>log := log w @ [e]\<rparr>"

definition getTime :: "world \<Rightarrow> int \<times> world" where
  "getTime w = (clock w (reads w), w\<lparr>reads := reads w + 1\<rparr>)"

definition setProperty :: "audit_state \<Rightarrow> world \<Rightarrow> world" where
  "setProperty st w = emit (SetProperty st) (w\<lparr>AUDIT_STATE := Some st\<rparr>)"

text \<open>
  The source also deletes \<^verbatim>\<open>AUDIT_PAGE_TOKEN\<close>, a property that nothing sets or reads.
\<close>

definition deleteProperty :: "world \<Rightarrow> world" where
  "deleteProperty w = emit DeleteProperty (w\<lparr>AUDIT_STATE := None\<rparr>)"

definition updateAuditStatus :: "status \<Rightarrow> message \<Rightarrow> nat \<Rightarrow> nat \<Rightarrow> world \<Rightarrow> world" where
  "updateAuditStatus s m processed totalFiles w = emit (Status s m processed totalFiles) w"

definition alert :: "string \<Rightarrow> world \<Rightarrow> world" where
  "alert title w = emit (Alert title) w"

subsection \<open>Triggers\<close>

definition deleteContinuationTriggers :: "world \<Rightarrow> world" where
  "deleteContinuationTriggers w =
     emit DeleteTriggers
       (w\<lparr>triggers := filter (\<lambda>h. h \<noteq> ''processDriveAuditBatch'') (triggers w)\<rparr>)"

definition scheduleAuditContinuation :: "world \<Rightarrow> world" where
  "scheduleAuditContinuation w =
     (let w1 = deleteContinuationTriggers w;
          w2 = emit (CreateTrigger ''processDriveAuditBatch'' (CONTINUATION_DELAY_MINUTES * 60 * 1000))
                 (w1\<lparr>triggers := triggers w1 @ [''processDriveAuditBatch'']\<rparr>)
      in updateAuditStatus RUNNING (ContinuationMessage CONTINUATION_DELAY_MINUTES) 0 0 w2)"

subsection \<open>The Drive calls\<close>

text \<open>\<^verbatim>\<open>pageSize || 100\<close>.\<close>

definition getDriveFilesBatch ::
  "string option \<Rightarrow> nat \<Rightarrow> world \<Rightarrow> files_response option \<times> world" where
  "getDriveFilesBatch token pageSize w =
     (let size' = (if pageSize = 0 then 100 else pageSize);
          w1 = emit (ListFiles token size') w
      in case drive_files w token size' of
           FilesThrows \<Rightarrow> (None, w1)
         | FilesOk response \<Rightarrow> (Some response, w1))"

definition getFilePermissions :: "string \<Rightarrow> world \<Rightarrow> permission list \<times> world" where
  "getFilePermissions fileId w =
     (let w1 = emit (ListPermissions fileId) w
      in case drive_permissions w fileId of
           PermissionsThrows \<Rightarrow> ([], w1)
         | PermissionsOk None \<Rightarrow> ([], w1)
         | PermissionsOk (Some ps) \<Rightarrow> (ps, w1))"

subsection \<open>processDriveAuditBatch\<close>

text \<open>The header row of the sheet \<^verbatim>\<open>Drive Audit\<close>.\<close>

definition headers :: row where
  "headers = map Text
     [''File Name'', ''File ID'', ''Owner'', ''Type'', ''MIME Type'', ''Created Date'',
      ''Modified Date'', ''Size (bytes)'', ''URL'', ''Permissions Count'', ''Permission Type'',
      ''Permission Role'', ''Permission Email'', ''Permission Domain'',
      ''Permission Display Name'']"

text \<open>
  \<^verbatim>\<open>filesBatch.files.forEach\<close> (lines 253-298): both counters go up by one for every
  file, then its permissions are fetched and its rows pushed onto \<^verbatim>\<open>auditData\<close>.
\<close>

fun processFiles ::
  "drive_file list \<Rightarrow> audit_state \<Rightarrow> nat \<Rightarrow> row list \<Rightarrow> world \<Rightarrow> audit_state \<times> nat \<times> row list \<times> world" where
  "processFiles [] st filesInThisBatch auditData w = (st, filesInThisBatch, auditData, w)"
| "processFiles (f # fs) st filesInThisBatch auditData w =
     (let st1 = st\<lparr>filesProcessed := filesProcessed st + 1\<rparr>;
          n1 = filesInThisBatch + 1;
          (permissions, w1) = getFilePermissions (file_id f) w
      in processFiles fs st1 n1 (auditData @ file_rows f permissions) w1)"

text \<open>
  Lines 301-306: \<^verbatim>\<open>auditSheet.getLastRow()\<close> on a null \<^verbatim>\<open>auditSheet\<close> is a TypeError.
\<close>

definition writeData :: "row list \<Rightarrow> audit_state \<Rightarrow> world \<Rightarrow> error + audit_state \<times> world" where
  "writeData auditData st w =
     (if length auditData > 0 then
        (case audit_sheet w of
           None \<Rightarrow> Inl TypeError
         | Some rows \<Rightarrow>
             Inr (st\<lparr>auditDataCount := auditDataCount st + length auditData\<rparr>,
                  emit (SetValues auditData) (w\<lparr>audit_sheet := Some (rows @ auditData)\<rparr>)))
      else Inr (st, w))"

text \<open>\<^verbatim>\<open>!auditState.pageToken\<close>: absent or the empty string.\<close>

definition no_token :: "string option \<Rightarrow> bool" where
  "no_token t = (case t of None \<Rightarrow> True | Some s \<Rightarrow> s = '''')"

datatype iteration =
    Continue audit_state nat bool world
  | Break audit_state world
  | ReturnI world
  | ThrowI error world

text \<open>One pass through the body of the \<^verbatim>\<open>while\<close> loop (lines 231-324).\<close>

definition loop_body :: "int \<Rightarrow> audit_state \<Rightarrow> nat \<Rightarrow> world \<Rightarrow> iteration" where
  "loop_body start st filesInThisBatch w =
     (let (now, w1) = getTime w;
          elapsedTime = now - start;
          w2 = emit (BudgetCheck elapsedTime) w1
      in if elapsedTime > MAX_EXECUTION_TIME then
           ReturnI (scheduleAuditContinuation (setProperty st w2))
         else
           (let (filesBatch, w3) = getDriveFilesBatch (pageToken st) 100 w2
            in case filesBatch of
                 None \<Rightarrow> Break (st\<lparr>phase := FINALIZING\<rparr>) w3
               | Some response \<Rightarrow>
                   (case files response of
                      None \<Rightarrow> Break (st\<lparr>phase := FINALIZING\<rparr>) w3
                    | Some fs \<Rightarrow>
                        if length fs = 0 then Break (st\<lparr>phase := FINALIZING\<rparr>) w3
                        else
                          (let (st1, n1, auditData, w4) = processFiles fs st filesInThisBatch [] w3
                           in case writeData auditData st1 w4 of
                                Inl e \<Rightarrow> ThrowI e w4
                              | Inr (st2, w5) \<Rightarrow>
                                  (let st3 = st2\<lparr>pageToken := nextPageToken response\<rparr>;
                                       w6 = (if filesProcessed st3 mod 50 = 0
                                             then updateAuditStatus RUNNING
                                                    (ProgressMessage (filesProcessed st3))
                                                    (filesProcessed st3) 0 w5
                                             else w5);
                                       st4 = (if no_token (pageToken st3)
                                              then st3\<lparr>phase := FINALIZING\<rparr> else st3);
                                       continueProcessing = \<not> no_token (pageToken st3)
                                   in Continue st4 n1 continueProcessing (setProperty st4 w6))))))"

datatype completion =
    Normal audit_state world
  | Returned world
  | Thrown error world

text \<open>
  The \<^verbatim>\<open>while (continueProcessing && filesInThisBatch < BATCH_SIZE)\<close> loop. A pass that
  goes round again has processed a page of at least one file, so the loop ends.
\<close>

function processing_loop :: "int \<Rightarrow> audit_state \<Rightarrow> nat \<Rightarrow> bool \<Rightarrow> world \<Rightarrow> completion" where
  "processing_loop start st filesInThisBatch continueProcessing w =
     (if continueProcessing \<and> filesInThisBatch < BATCH_SIZE then
        (case loop_body start st filesInThisBatch w of
           Continue st' n' c' w' \<Rightarrow> processing_loop start st' n' c' w'
         | Break st' w' \<Rightarrow> Normal st' w'
         | ReturnI w' \<Rightarrow> Returned w'
         | ThrowI e w' \<Rightarrow> Thrown e w')
      else Normal st w)"
  by pat_completeness auto
termination
proof (relation "measure (\<lambda>(start, st, n, c, w). BATCH_SIZE - n)")
  show "wf (measure (\<lambda>(start, st, n, c, w). BATCH_SIZE - n))"
    by simp
next
  fix start :: int and st st' :: audit_state and n n' :: nat and c c' :: bool and w w' :: world
  assume guard: "c \<and> n < BATCH_SIZE"
    and body: "loop_body start st n w = Continue st' n' c' w'"
  have count: "fst (snd (processFiles fs s k d v)) = k + length fs" for fs s k d v
    by (induction fs arbitrary: s k d v) (simp_all add: Let_def split: prod.splits)
  have count': "k' = k + length fs" if "processFiles fs s k d v = (s', k', d', v')"
    for fs s k d v s' k' d' v'
    using count [of fs s k d v] that by simp
  have "n < n'"
    using body
    by (auto simp: loop_body_def Let_def split: prod.splits option.splits if_splits sum.splits
             dest!: count')
  with guard show "((start, st', n', c', w'), (start, st, n, c, w))
      \<in> measure (\<lambda>(start, st, n, c, w). BATCH_SIZE - n)"
    by auto
qed

text \<open>
  The \<^verbatim>\<open>SETUP\<close> block (lines 174-215): the sheet is cleared or created, the header
  row written, the phase advanced and the state saved.
\<close>

definition setup_phase :: "audit_state \<Rightarrow> world \<Rightarrow> audit_state \<times> world" where
  "setup_phase st w =
     (if phase st = SETUP then
        (let w1 = w\<lparr>audit_sheet := Some [headers]\<rparr>;
             st1 = st\<lparr>phase := PROCESSING\<rparr>
         in (st1, setProperty st1 w1))
      else (st, w))"

text \<open>
  The \<^verbatim>\<open>PROCESSING\<close> block (lines 218-335): a status report, the loop, and, if the
  phase is still \<^verbatim>\<open>PROCESSING\<close> after the loop, the state is saved, a continuation
  scheduled and the function returns.
\<close>

definition processing_phase :: "int \<Rightarrow> audit_state \<Rightarrow> world \<Rightarrow> completion" where
  "processing_phase start st w =
     (if phase st = PROCESSING then
        (let w1 = updateAuditStatus RUNNING ProcessingMessage (filesProcessed st) 0 w
         in case processing_loop start st 0 True w1 of
              Normal st' w' \<Rightarrow>
                if phase st' = PROCESSING
                then Returned (scheduleAuditContinuation (setProperty st' w'))
                else Normal st' w'
            | Returned w' \<Rightarrow> Returned w'
            | Thrown e w' \<Rightarrow> Thrown e w')
      else Normal st w)"

text \<open>
  The \<^verbatim>\<open>FINALIZING\<close> block (lines 338-392). \<^verbatim>\<open>ss.getSheetByName('Drive Audit')\<close>
  is looked up again; \<^verbatim>\<open>getLastRow\<close> on null is a TypeError. Column widths and the
  filter are presentation and left out.
\<close>

definition finalizing_phase :: "audit_state \<Rightarrow> world \<Rightarrow> completion" where
  "finalizing_phase st w =
     (if phase st = FINALIZING then
        (let w1 = updateAuditStatus RUNNING FinalizingMessage (filesProcessed st) (filesProcessed st) w
         in case audit_sheet w1 of
              None \<Rightarrow> Thrown TypeError w1
            | Some rows \<Rightarrow>
                (let w2 = w1\<lparr>summary_sheet := Some (filesProcessed st, auditDataCount st)\<rparr>;
                     w3 = updateAuditStatus COMPLETED
                            (CompletedMessage (filesProcessed st) (auditDataCount st))
                            (filesProcessed st) (filesProcessed st) w2
                 in Normal st (deleteContinuationTriggers (deleteProperty w3))))
      else Normal st w)"

text \<open>The body of the \<^verbatim>\<open>try\<close> (lines 151-392), given the reading of line 144.\<close>

definition try_block :: "int \<Rightarrow> world \<Rightarrow> completion" where
  "try_block start w =
     (let auditState =
            (case AUDIT_STATE w of
               None \<Rightarrow>
                 \<lparr>phase = SETUP, totalFilesFound = 0, filesProcessed = 0, auditDataCount = 0,
                  pageToken = None, startTime = start\<rparr>
             | Some st \<Rightarrow> st);
          (st1, w1) = setup_phase auditState w
      in case processing_phase start st1 w1 of
           Normal st2 w2 \<Rightarrow> finalizing_phase st2 w2
         | Returned w2 \<Rightarrow> Returned w2
         | Thrown e w2 \<Rightarrow> Thrown e w2)"

text \<open>The \<^verbatim>\<open>catch\<close> (lines 394-406).\<close>

definition catch_block :: "error \<Rightarrow> world \<Rightarrow> world" where
  "catch_block e w =
     deleteContinuationTriggers (deleteProperty (updateAuditStatus ERROR (ErrorMessage e) 0 0 w))"

definition processDriveAuditBatch :: "world \<Rightarrow> world" where
  "processDriveAuditBatch w =
     (let (start, w1) = getTime w
      in case try_block start w1 of
           Normal st w2 \<Rightarrow> w2
         | Returned w2 \<Rightarrow> w2
         | Thrown e w2 \<Rightarrow> catch_block e w2)"

subsection \<open>runDriveAudit and cancelRunningAudit\<close>

definition runDriveAudit :: "world \<Rightarrow> world" where
  "runDriveAudit w =
     (let w1 = deleteProperty w;
          w2 = updateAuditStatus RUNNING StartingMessage 0 0 w1;
          w3 = alert ''Drive Audit'' w2
      in processDriveAuditBatch w3)"

text \<open>
  \<open>result\<close> is the button the user presses in the confirmation dialog; the dialog is
  shown only when a state is stored.
\<close>

definition cancelRunningAudit :: "button \<Rightarrow> world \<Rightarrow> world" where
  "cancelRunningAudit result w =
     (case AUDIT_STATE w of
        None \<Rightarrow> alert ''No Running Audit'' w
      | Some auditState \<Rightarrow>
          (let w1 = alert ''Cancel Running Audit?'' w
           in if result = YES then
                (let w2 = deleteProperty w1;
                     w3 = deleteContinuationTriggers w2;
                     w4 = updateAuditStatus CANCELLED CancelledMessage 0 0 w3
                 in alert ''Audit Cancelled'' w4)
              else w1))"

subsection \<open>Reading a world and its log\<close>

text \<open>The continuation triggers that are registered.\<close>

definition continuations :: "world \<Rightarrow> string list" where
  "continuations w = filter (\<lambda>h. h = ''processDriveAuditBatch'') (triggers w)"

text \<open>The events that \<open>w'\<close> has logged after \<open>w\<close>.\<close>

definition events_since :: "world \<Rightarrow> world \<Rightarrow> event list" where
  "events_since w w' = drop (length (log w)) (log w')"

fun status_of :: "event \<Rightarrow> status option" where
  "status_of (Status s m a b) = Some s"
| "status_of e = None"

text \<open>The statuses reported, in order.\<close>

definition statuses :: "event list \<Rightarrow> status list" where
  "statuses es = List.map_filter status_of es"

text \<open>What \<^verbatim>\<open>getFilePermissions\<close> returns for a file id.\<close>

definition permissions_of :: "world \<Rightarrow> string \<Rightarrow> permission list" where
  "permissions_of w fileId = fst (getFilePermissions fileId w)"

text \<open>
  The files of the page that \<^verbatim>\<open>getDriveFilesBatch(token, 100)\<close> returns: none when the call
  throws or \<^verbatim>\<open>response.files\<close> is absent.
\<close>

definition page_files :: "world \<Rightarrow> string option \<Rightarrow> drive_file list" where
  "page_files w token =
     (case drive_files w token 100 of
        FilesThrows \<Rightarrow> []
      | FilesOk response \<Rightarrow> (case files response of None \<Rightarrow> [] | Some fs \<Rightarrow> fs))"

text \<open>The \<^verbatim>\<open>nextPageToken\<close> of that page.\<close>

definition page_next :: "world \<Rightarrow> string option \<Rightarrow> string option" where
  "page_next w token =
     (case drive_files w token 100 of
        FilesThrows \<Rightarrow> None
      | FilesOk response \<Rightarrow> nextPageToken response)"

text \<open>The rows of a list of files, file after file.\<close>

definition page_rows :: "world \<Rightarrow> drive_file list \<Rightarrow> row list" where
  "page_rows w fs = concat (map (\<lambda>f. file_rows f (permissions_of w (file_id f))) fs)"

text \<open>The permission calls of a list of files, in order.\<close>

definition permission_calls :: "drive_file list \<Rightarrow> event list" where
  "permission_calls fs = map (\<lambda>f. ListPermissions (file_id f)) fs"

text \<open>The elapsed time that the next budget check will see.\<close>

definition checked :: "int \<Rightarrow> world \<Rightarrow> int" where
  "checked start w = clock w (reads w) - start"

text \<open>The state after the page at the cursor of \<open>st\<close> has been processed.\<close>

definition page_state :: "world \<Rightarrow> audit_state \<Rightarrow> audit_state" where
  "page_state w st =
     (let fs = page_files w (pageToken st); next = page_next w (pageToken st)
      in st\<lparr>filesProcessed := filesProcessed st + length fs,
            auditDataCount := auditDataCount st + length (page_rows w fs),
            pageToken := next,
            phase := (if no_token next then FINALIZING else phase st)\<rparr>)"

text \<open>
  The events of one pass of the loop that processes a page, \<open>elapsed\<close> the time its
  budget check sees.
\<close>

definition page_events :: "int \<Rightarrow> world \<Rightarrow> audit_state \<Rightarrow> event list" where
  "page_events elapsed w st =
     (let fs = page_files w (pageToken st); st' = page_state w st
      in [BudgetCheck elapsed, ListFiles (pageToken st) 100]
         @ permission_calls fs
         @ [SetValues (page_rows w fs)]
         @ (if filesProcessed st' mod 50 = 0
            then [Status RUNNING (ProgressMessage (filesProcessed st')) (filesProcessed st') 0]
            else [])
         @ [SetProperty st'])"

subsection \<open>The parts of an invocation\<close>

text \<open>The events of a checkpoint: the state is saved and a continuation scheduled.\<close>

definition checkpoint_events :: "audit_state \<Rightarrow> event list" where
  "checkpoint_events st =
     [SetProperty st, DeleteTriggers, CreateTrigger ''processDriveAuditBatch'' 60000,
      Status RUNNING (ContinuationMessage 1) 0 0]"

text \<open>The events of the \<^verbatim>\<open>catch\<close> block.\<close>

definition error_events :: "event list" where
  "error_events = [Status ERROR (ErrorMessage TypeError) 0 0, DeleteProperty, DeleteTriggers]"

text \<open>The events of the \<^verbatim>\<open>FINALIZING\<close> block, with and without the audit sheet.\<close>

definition finalizing_events :: "audit_state \<Rightarrow> bool \<Rightarrow> event list" where
  "finalizing_events st sheet =
     Status RUNNING FinalizingMessage (filesProcessed st) (filesProcessed st)
     # (if sheet
        then [Status COMPLETED (CompletedMessage (filesProcessed st) (auditDataCount st))
                (filesProcessed st) (filesProcessed st),
              DeleteProperty, DeleteTriggers]
        else error_events)"

text \<open>The state an invocation starts from: the stored one, or a fresh one.\<close>

definition loaded :: "world \<Rightarrow> audit_state" where
  "loaded w =
     (case AUDIT_STATE w of
        None \<Rightarrow>
          \<lparr>phase = SETUP, totalFilesFound = 0, filesProcessed = 0, auditDataCount = 0,
           pageToken = None, startTime = clock w (reads w)\<rparr>
      | Some st \<Rightarrow> st)"

text \<open>The state and the world after the \<^verbatim>\<open>SETUP\<close> block.\<close>

definition entry_state :: "world \<Rightarrow> audit_state" where
  "entry_state w = fst (setup_phase (loaded w) (snd (getTime w)))"

definition entry_world :: "world \<Rightarrow> world" where
  "entry_world w = snd (setup_phase (loaded w) (snd (getTime w)))"

text \<open>The events up to the first pass of the loop.\<close>

definition entry_events :: "world \<Rightarrow> event list" where
  "entry_events w =
     (if phase (loaded w) = SETUP then [SetProperty (entry_state w)] else [])
     @ (if phase (entry_state w) = PROCESSING
        then [Status RUNNING ProcessingMessage (filesProcessed (entry_state w)) 0] else [])"

text \<open>What an invocation does with the outcome of the loop (lines 327-406).\<close>

definition after_loop :: "completion \<Rightarrow> world" where
  "after_loop r =
     (case r of
        Returned w \<Rightarrow> w
      | Thrown e w \<Rightarrow> catch_block e w
      | Normal st w \<Rightarrow>
          if phase st = PROCESSING then scheduleAuditContinuation (setProperty st w)
          else (case finalizing_phase st w of
                  Normal st' w' \<Rightarrow> w'
                | Returned w' \<Rightarrow> w'
                | Thrown e w' \<Rightarrow> catch_block e w'))"

text \<open>
  A loop head reached by the invocation that started in \<open>w\<close>: the in-memory state is
  \<open>st\<close>, \<open>n\<close> files were processed in this invocation, \<open>c\<close> is
  \<^verbatim>\<open>continueProcessing\<close> and \<open>wh\<close> the world.
\<close>

definition at_head :: "world \<Rightarrow> audit_state \<Rightarrow> nat \<Rightarrow> bool \<Rightarrow> world \<Rightarrow> bool" where
  "at_head w st n c wh \<longleftrightarrow>
     drive_files wh = drive_files w \<and> drive_permissions wh = drive_permissions w
     \<and> clock wh = clock w \<and> triggers wh = triggers w \<and> summary_sheet wh = summary_sheet w
     \<and> (audit_sheet wh = None \<longleftrightarrow> audit_sheet (entry_world w) = None)
     \<and> (c \<or> audit_sheet wh \<noteq> None)
     \<and> AUDIT_STATE wh = Some st
     \<and> phase st = (if c then PROCESSING else FINALIZING)
     \<and> filesProcessed st = filesProcessed (entry_state w) + n"

text \<open>
  How the loop ends from a head where it does not process another page: it is left, a
  checkpoint is taken, the listing is over, or the audit sheet is missing.
\<close>

definition loop_end :: "int \<Rightarrow> audit_state \<Rightarrow> nat \<Rightarrow> bool \<Rightarrow> world \<Rightarrow> completion" where
  "loop_end start st n c wh =
     (if c \<and> n < BATCH_SIZE then
        (if MAX_EXECUTION_TIME < checked start wh then
           Returned (wh\<lparr>reads := reads wh + 1, AUDIT_STATE := Some st,
                        triggers := filter (\<lambda>h. h \<noteq> ''processDriveAuditBatch'') (triggers wh)
                                    @ [''processDriveAuditBatch''],
                        log := log wh @ BudgetCheck (checked start wh) # checkpoint_events st\<rparr>)
         else if page_files wh (pageToken st) = [] then
           Normal (st\<lparr>phase := FINALIZING\<rparr>)
             (wh\<lparr>reads := reads wh + 1,
                 log := log wh @ [BudgetCheck (checked start wh), ListFiles (pageToken st) 100]\<rparr>)
         else
           Thrown TypeError
             (wh\<lparr>reads := reads wh + 1,
                 log := log wh @ [BudgetCheck (checked start wh), ListFiles (pageToken st) 100]
                        @ permission_calls (page_files wh (pageToken st))\<rparr>))
      else Normal st wh)"

text \<open>The status report that opens the \<^verbatim>\<open>FINALIZING\<close> block.\<close>

fun entered_finalizing :: "event \<Rightarrow> bool" where
  "entered_finalizing (Status s FinalizingMessage a b) = True"
| "entered_finalizing e = False"

text \<open>The files processed: one permission call is made for each.\<close>

fun is_permission_call :: "event \<Rightarrow> bool" where
  "is_permission_call (ListPermissions i) = True"
| "is_permission_call e = False"

definition items_processed :: "event list \<Rightarrow> nat" where
  "items_processed es = length (filter is_permission_call es)"

text \<open>The budget checks that found the time exceeded.\<close>

fun over_budget :: "event \<Rightarrow> bool" where
  "over_budget (BudgetCheck e) = (MAX_EXECUTION_TIME < e)"
| "over_budget e = False"

text \<open>
  The world in which every permission call that throws returns an empty list instead.
\<close>

definition recovered :: "world \<Rightarrow> world" where
  "recovered w =
     w\<lparr>drive_permissions :=
         (\<lambda>i. case drive_permissions w i of
                 PermissionsThrows \<Rightarrow> PermissionsOk (Some [])
               | PermissionsOk ps \<Rightarrow> PermissionsOk ps)\<rparr>"

text \<open>The same outcome, in the recovered world.\<close>

definition recovered_iteration :: "iteration \<Rightarrow> iteration" where
  "recovered_iteration r =
     (case r of
        Continue st n c w \<Rightarrow> Continue st n c (recovered w)
      | Break st w \<Rightarrow> Break st (recovered w)
      | ReturnI w \<Rightarrow> ReturnI (recovered w)
      | ThrowI e w \<Rightarrow> ThrowI e (recovered w))"

definition recovered_completion :: "completion \<Rightarrow> completion" where
  "recovered_completion r =
     (case r of
        Normal st w \<Rightarrow> Normal st (recovered w)
      | Returned w \<Rightarrow> Returned (recovered w)
      | Thrown e w \<Rightarrow> Thrown e (recovered w))"

text \<open>Kinds of events.\<close>

fun is_fetch :: "event \<Rightarrow> bool" where
  "is_fetch (ListFiles t k) = True"
| "is_fetch e = False"

fun is_check :: "event \<Rightarrow> bool" where
  "is_check (BudgetCheck e) = True"
| "is_check e = False"

fun is_save :: "event \<Rightarrow> bool" where
  "is_save (SetProperty st) = True"
| "is_save e = False"





text \<open>The stored state after the events of a log, from the stored state before them.\<close>

fun stored_after :: "audit_state option \<Rightarrow> event list \<Rightarrow> audit_state option" where
  "stored_after s [] = s"
| "stored_after s (SetProperty st # es) = stored_after (Some st) es"
| "stored_after s (DeleteProperty # es) = stored_after None es"
| "stored_after s (e # es) = stored_after s es"

text \<open>The rows written to the audit sheet by the events of a log.\<close>

fun rows_written :: "event list \<Rightarrow> nat" where
  "rows_written [] = 0"
| "rows_written (SetValues rows # es) = length rows + rows_written es"
| "rows_written (e # es) = rows_written es"

text \<open>
  Whether the stored state \<open>s\<close> is up to date when \<open>fp\<close> files have been processed and
  \<open>rc\<close> rows written, and whether its cursor is \<open>t\<close>.
\<close>

definition up_to_date :: "audit_state option \<Rightarrow> nat \<Rightarrow> nat \<Rightarrow> bool" where
  "up_to_date s fp rc =
     (case s of None \<Rightarrow> False | Some st \<Rightarrow> filesProcessed st = fp \<and> auditDataCount st = rc)"

definition cursor_is :: "audit_state option \<Rightarrow> string option \<Rightarrow> bool" where
  "cursor_is s t = (case s of None \<Rightarrow> False | Some st \<Rightarrow> pageToken st = t)"

text \<open>
  A walk through a log that keeps the stored state, the number of files processed and the
  number of rows written: at every budget check and at every fetch of a page the stored
  state is up to date, and the page fetched is the one at the cursor of the stored state.
\<close>

fun checkpointed :: "audit_state option \<Rightarrow> nat \<Rightarrow> nat \<Rightarrow> event list \<Rightarrow> bool" where
  "checkpointed s fp rc [] = True"
| "checkpointed s fp rc (SetProperty st # es) = checkpointed (Some st) fp rc es"
| "checkpointed s fp rc (DeleteProperty # es) = checkpointed None fp rc es"
| "checkpointed s fp rc (ListPermissions i # es) = checkpointed s (fp + 1) rc es"
| "checkpointed s fp rc (SetValues rows # es) = checkpointed s fp (rc + length rows) es"
| "checkpointed s fp rc (BudgetCheck e # es) = (up_to_date s fp rc \<and> checkpointed s fp rc es)"
| "checkpointed s fp rc (ListFiles t k # es) =
     (up_to_date s fp rc \<and> cursor_is s t \<and> checkpointed s fp rc es)"
| "checkpointed s fp rc (e # es) = checkpointed s fp rc es"

text \<open>The rows that the \<^verbatim>\<open>setValues\<close> calls of a log have appended to the audit sheet, in order.\<close>

fun rows_appended :: "event list \<Rightarrow> row list" where
  "rows_appended [] = []"
| "rows_appended (SetValues rows # es) = rows @ rows_appended es"
| "rows_appended (e # es) = rows_appended es"

text \<open>
  The files of the pages that the \<^verbatim>\<open>Drive.Files.list\<close> calls of a log have returned, in
  order.
\<close>

fun fetched_files :: "world \<Rightarrow> event list \<Rightarrow> drive_file list" where
  "fetched_files w [] = []"
| "fetched_files w (ListFiles t k # es) = page_files w t @ fetched_files w es"
| "fetched_files w (e # es) = fetched_files w es"

text \<open>The world in which the loop ends.\<close>

definition completion_world :: "completion \<Rightarrow> world" where
  "completion_world r = (case r of Normal st w \<Rightarrow> w | Returned w \<Rightarrow> w | Thrown e w \<Rightarrow> w)"

text \<open>
  The audit sheet of \<open>w\<close> is \<open>sheet0\<close> followed by the rows that the log says were appended
  since \<open>w0\<close>; a missing sheet stays missing.
\<close>

definition sheet_logged :: "world \<Rightarrow> row list option \<Rightarrow> world \<Rightarrow> bool" where
  "sheet_logged w0 sheet0 w \<longleftrightarrow>
     (\<exists>es. log w = log w0 @ es
        \<and> audit_sheet w = map_option (\<lambda>rows. rows @ rows_appended es) sheet0)"

subsection \<open>Example inputs\<close>

definition example_file :: "string \<Rightarrow> drive_file" where
  "example_file i =
     \<lparr>file_id = i, file_name = ''report'', mimeType = ''application/pdf'',
      owners = Some [\<lparr>owner_emailAddress = ''ann@example.com''\<rparr>],
      createdTime = Some ''2024-01-01T00:00:00Z'', modifiedTime = None,
      file_size = Some ''120'', webViewLink = None\<rparr>"

definition example_permission :: "string \<Rightarrow> permission" where
  "example_permission r =
     \<lparr>perm_type = ''user'', perm_role = r, perm_emailAddress = Some ''bob@example.com'',
      perm_domain = None, perm_displayName = Some ''Bob''\<rparr>"

definition example_state :: audit_state where
  "example_state =
     \<lparr>phase = PROCESSING, totalFilesFound = 0, filesProcessed = 100, auditDataCount = 130,
      pageToken = Some ''p2'', startTime = 0\<rparr>"

definition example_world ::
  "(string option \<Rightarrow> nat \<Rightarrow> files_result) \<Rightarrow> (string \<Rightarrow> permissions_result) \<Rightarrow> (nat \<Rightarrow> int)
   \<Rightarrow> audit_state option \<Rightarrow> row list option \<Rightarrow> world" where
  "example_world list perms time stored sheet =
     \<lparr>drive_files = list, drive_permissions = perms, clock = time, reads = 0,
      AUDIT_STATE = stored, triggers = [''runDriveAudit'', ''processDriveAuditBatch''],
      audit_sheet = sheet, summary_sheet = None, log = []\<rparr>"

definition running_world :: world where
  "running_world =
     example_world (\<lambda>t k. FilesThrows) (\<lambda>i. PermissionsThrows) (\<lambda>k. 0)
       (Some example_state) (Some [headers])"

text \<open>A resumed job whose audit sheet has been deleted and whose listing is over.\<close>

definition missing_sheet_world :: world where
  "missing_sheet_world =
     example_world (\<lambda>t k. FilesOk \<lparr>files = Some [], nextPageToken = None\<rparr>)
       (\<lambda>i. PermissionsThrows) (\<lambda>k. 0) (Some example_state) None"

text \<open>A resumed job that is over its time budget at the first check.\<close>

definition budget_world :: world where
  "budget_world =
     example_world (\<lambda>t k. FilesThrows) (\<lambda>i. PermissionsThrows)
       (\<lambda>k. if k = 0 then 0 else 300000) (Some example_state) (Some [headers])"

text \<open>Scenario C: three files on one page, the permission call of the second one throws.\<close>

definition scenario_c_world :: world where
  "scenario_c_world =
     example_world
       (\<lambda>t k. FilesOk \<lparr>files = Some [example_file ''a'', example_file ''b'', example_file ''c''],
                        nextPageToken = None\<rparr>)
       (\<lambda>i. if i = ''a'' then PermissionsOk (Some [example_permission ''owner'',
                                                    example_permission ''reader''])
             else if i = ''b'' then PermissionsThrows
             else PermissionsOk (Some [example_permission ''owner'']))
       (\<lambda>k. 0) None None"

text \<open>A job of two pages, of one and of two files.\<close>

definition two_page_world :: world where
  "two_page_world =
     example_world
       (\<lambda>t k. if t = None
              then FilesOk \<lparr>files = Some [example_file ''a''], nextPageToken = Some ''p2''\<rparr>
              else FilesOk \<lparr>files = Some [example_file ''b'', example_file ''c''],
                           nextPageToken = None\<rparr>)
       (\<lambda>i. PermissionsOk (Some [example_permission ''owner'', example_permission ''reader'']))
       (\<lambda>k. 0) None None"

text \<open>
  A fresh job on a drive whose listing returns pages of 99 files, each with a token for a
  next page; the time budget is never exceeded.
\<close>

definition partial_pages_world :: world where
  "partial_pages_world =
     example_world
       (\<lambda>t k. FilesOk \<lparr>files = Some (replicate 99 (example_file ''f'')),
                        nextPageToken = Some ''next''\<rparr>)
       (\<lambda>i. PermissionsOk (Some [])) (\<lambda>k. 0) None None"

text \<open>
  A resumed job whose audit sheet has been deleted and whose listing has one more page, of
  two files.
\<close>

definition deleted_sheet_world :: world where
  "deleted_sheet_world =
     example_world
       (\<lambda>t k. FilesOk \<lparr>files = Some [example_file ''a'', example_file ''b''],
                        nextPageToken = None\<rparr>)
       (\<lambda>i. PermissionsOk (Some [example_permission ''owner'']))
       (\<lambda>k. 0) (Some example_state) None"

text \<open>
  The state that the last pass of the loop saves in a job of three files and six rows, and
  a world in which it is the stored state.
\<close>

definition last_page_state :: audit_state where
  "last_page_state =
     \<lparr>phase = FINALIZING, totalFilesFound = 0, filesProcessed = 3, auditDataCount = 6,
      pageToken = None, startTime = 0\<rparr>"

definition finalizing_stored_world :: world where
  "finalizing_stored_world =
     example_world (\<lambda>t k. FilesThrows) (\<lambda>i. PermissionsThrows) (\<lambda>k. 0)
       (Some last_page_state) (Some [headers])"

section \<open>Basic facts\<close>

declare processing_loop.simps [simp del]

lemma permissions_of_frame [simp]:
  "permissions_of (w\<lparr>log := l\<rparr>) = permissions_of w"
  "permissions_of (w\<lparr>reads := r\<rparr>) = permissions_of w"
  "permissions_of (w\<lparr>AUDIT_STATE := a\<rparr>) = permissions_of w"
  "permissions_of (w\<lparr>triggers := t\<rparr>) = permissions_of w"
  "permissions_of (w\<lparr>audit_sheet := sh\<rparr>) = permissions_of w"
  "permissions_of (w\<lparr>summary_sheet := su\<rparr>) = permissions_of w"
  by (simp_all add: permissions_of_def getFilePermissions_def emit_def Let_def fun_eq_iff
           split: permissions_result.splits option.splits)

lemma file_rows_not_Nil [simp]: "file_rows f ps \<noteq> []"
  by (simp add: file_rows_def)

lemma page_rows_frame [simp]:
  "page_rows (w\<lparr>log := l\<rparr>) = page_rows w"
  "page_rows (w\<lparr>reads := r\<rparr>) = page_rows w"
  "page_rows (w\<lparr>AUDIT_STATE := a\<rparr>) = page_rows w"
  "page_rows (w\<lparr>triggers := t\<rparr>) = page_rows w"
  "page_rows (w\<lparr>audit_sheet := sh\<rparr>) = page_rows w"
  "page_rows (w\<lparr>summary_sheet := su\<rparr>) = page_rows w"
  by (simp_all add: page_rows_def fun_eq_iff)

lemma page_rows_Nil_iff [simp]: "page_rows w fs = [] \<longleftrightarrow> fs = []"
  by (cases fs) (simp_all add: page_rows_def)

lemma page_rows_simps [simp]:
  "page_rows w [] = []"
  "page_rows w (f # fs) = file_rows f (permissions_of w (file_id f)) @ page_rows w fs"
  by (simp_all add: page_rows_def)

lemma getFilePermissions_eq:
  "getFilePermissions i w = (permissions_of w i, emit (ListPermissions i) w)"
  by (simp add: permissions_of_def getFilePermissions_def Let_def
           split: permissions_result.splits option.splits)

lemma processFiles_eq:
  "processFiles fs st n d w =
     (st\<lparr>filesProcessed := filesProcessed st + length fs\<rparr>,
      n + length fs,
      d @ page_rows w fs,
      w\<lparr>log := log w @ permission_calls fs\<rparr>)"
proof (induction fs arbitrary: st n d w)
  case Nil
  show ?case by (simp add: permission_calls_def)
next
  case (Cons f fs)
  show ?case
    by (simp add: Cons.IH getFilePermissions_eq permission_calls_def emit_def)
qed

lemma page_files_frame [simp]:
  "page_files (w\<lparr>log := l\<rparr>) = page_files w"
  "page_files (w\<lparr>reads := r\<rparr>) = page_files w"
  "page_files (w\<lparr>AUDIT_STATE := a\<rparr>) = page_files w"
  "page_files (w\<lparr>triggers := t\<rparr>) = page_files w"
  "page_files (w\<lparr>audit_sheet := sh\<rparr>) = page_files w"
  "page_files (w\<lparr>summary_sheet := su\<rparr>) = page_files w"
  by (simp_all add: page_files_def fun_eq_iff)

lemma page_next_frame [simp]:
  "page_next (w\<lparr>log := l\<rparr>) = page_next w"
  "page_next (w\<lparr>reads := r\<rparr>) = page_next w"
  "page_next (w\<lparr>AUDIT_STATE := a\<rparr>) = page_next w"
  "page_next (w\<lparr>triggers := t\<rparr>) = page_next w"
  "page_next (w\<lparr>audit_sheet := sh\<rparr>) = page_next w"
  "page_next (w\<lparr>summary_sheet := su\<rparr>) = page_next w"
  by (simp_all add: page_next_def fun_eq_iff)

lemma loop_body_exceeded:
  assumes "checked start w > MAX_EXECUTION_TIME"
  shows "loop_body start st n w =
     ReturnI (w\<lparr>reads := reads w + 1, AUDIT_STATE := Some st,
                triggers := filter (\<lambda>h. h \<noteq> ''processDriveAuditBatch'') (triggers w)
                            @ [''processDriveAuditBatch''],
                log := log w @ [BudgetCheck (checked start w), SetProperty st, DeleteTriggers,
                                CreateTrigger ''processDriveAuditBatch'' 60000,
                                Status RUNNING (ContinuationMessage 1) 0 0]\<rparr>)"
  using assms
  by (simp add: loop_body_def checked_def getTime_def emit_def setProperty_def
        scheduleAuditContinuation_def deleteContinuationTriggers_def updateAuditStatus_def
        CONTINUATION_DELAY_MINUTES_def Let_def)

lemma loop_body_no_files:
  assumes "\<not> checked start w > MAX_EXECUTION_TIME" and "page_files w (pageToken st) = []"
  shows "loop_body start st n w =
     Break (st\<lparr>phase := FINALIZING\<rparr>)
       (w\<lparr>reads := reads w + 1,
          log := log w @ [BudgetCheck (checked start w), ListFiles (pageToken st) 100]\<rparr>)"
  using assms
  by (simp add: loop_body_def checked_def getTime_def emit_def getDriveFilesBatch_def
        page_files_def Let_def split: files_result.splits option.splits)

lemma loop_body_no_sheet:
  assumes "\<not> checked start w > MAX_EXECUTION_TIME" and "page_files w (pageToken st) \<noteq> []"
    and "audit_sheet w = None"
  shows "loop_body start st n w =
     ThrowI TypeError
       (w\<lparr>reads := reads w + 1,
          log := log w @ [BudgetCheck (checked start w), ListFiles (pageToken st) 100]
                 @ permission_calls (page_files w (pageToken st))\<rparr>)"
  using assms
  by (simp add: loop_body_def checked_def getTime_def emit_def getDriveFilesBatch_def
        page_files_def processFiles_eq writeData_def Let_def
        split: files_result.splits option.splits)

lemma loop_body_page:
  assumes "\<not> checked start w > MAX_EXECUTION_TIME" and "page_files w (pageToken st) \<noteq> []"
    and "audit_sheet w = Some rows"
  shows "loop_body start st n w =
     Continue (page_state w st) (n + length (page_files w (pageToken st)))
       (\<not> no_token (page_next w (pageToken st)))
       (w\<lparr>reads := reads w + 1,
          AUDIT_STATE := Some (page_state w st),
          audit_sheet := Some (rows @ page_rows w (page_files w (pageToken st))),
          log := log w @ page_events (checked start w) w st\<rparr>)"
  using assms
  by (simp add: loop_body_def checked_def getTime_def emit_def getDriveFilesBatch_def
        page_files_def page_next_def processFiles_eq writeData_def Let_def page_state_def page_events_def
        setProperty_def updateAuditStatus_def
        split: files_result.splits option.splits)

lemma processing_loop_rule:
  assumes init: "I st n c w"
    and continue: "\<And>st n c w st' n' c' w'.
        I st n c w \<Longrightarrow> c \<Longrightarrow> n < BATCH_SIZE \<Longrightarrow> loop_body start st n w = Continue st' n' c' w'
        \<Longrightarrow> I st' n' c' w'"
    and break: "\<And>st n c w st' w'.
        I st n c w \<Longrightarrow> c \<Longrightarrow> n < BATCH_SIZE \<Longrightarrow> loop_body start st n w = Break st' w'
        \<Longrightarrow> Q (Normal st' w')"
    and return: "\<And>st n c w w'.
        I st n c w \<Longrightarrow> c \<Longrightarrow> n < BATCH_SIZE \<Longrightarrow> loop_body start st n w = ReturnI w'
        \<Longrightarrow> Q (Returned w')"
    and throw: "\<And>st n c w e w'.
        I st n c w \<Longrightarrow> c \<Longrightarrow> n < BATCH_SIZE \<Longrightarrow> loop_body start st n w = ThrowI e w'
        \<Longrightarrow> Q (Thrown e w')"
    and exit: "\<And>st n c w. I st n c w \<Longrightarrow> \<not> (c \<and> n < BATCH_SIZE) \<Longrightarrow> Q (Normal st w)"
  shows "Q (processing_loop start st n c w)"
  using assms
proof (induction start st n c w rule: processing_loop.induct)
  case (1 start st n c w)
  note I = "1.prems"(1)
  show ?case
  proof (cases "c \<and> n < BATCH_SIZE")
    case False
    then have "processing_loop start st n c w = Normal st w"
      by (subst processing_loop.simps) auto
    then show ?thesis using "1.prems"(6) [OF I False] by simp
  next
    case True
    then have eq: "processing_loop start st n c w =
        (case loop_body start st n w of
           Continue st' n' c' w' \<Rightarrow> processing_loop start st' n' c' w'
         | Break st' w' \<Rightarrow> Normal st' w'
         | ReturnI w' \<Rightarrow> Returned w'
         | ThrowI e w' \<Rightarrow> Thrown e w')"
      by (subst processing_loop.simps) auto
    from True have c: "c" and n: "n < BATCH_SIZE"
      by simp_all
    show ?thesis
    proof (cases "loop_body start st n w")
      case (Continue st' n' c' w')
      have "I st' n' c' w'"
        using "1.prems"(2) [OF I c n Continue] .
      then have "Q (processing_loop start st' n' c' w')"
        using "1.IH" [OF True Continue] "1.prems"(2-6) by blast
      then show ?thesis using Continue eq by simp
    next
      case (Break st' w')
      then show ?thesis using "1.prems"(3) [OF I c n Break] eq by simp
    next
      case (ReturnI w')
      then show ?thesis using "1.prems"(4) [OF I c n ReturnI] eq by simp
    next
      case (ThrowI e w')
      then show ?thesis using "1.prems"(5) [OF I c n ThrowI] eq by simp
    qed
  qed
qed

lemma processDriveAuditBatch_eq:
  "processDriveAuditBatch w =
     (if phase (entry_state w) = PROCESSING then
        after_loop (processing_loop (clock w (reads w)) (entry_state w) 0 True
          (updateAuditStatus RUNNING ProcessingMessage (filesProcessed (entry_state w)) 0
             (entry_world w)))
      else after_loop (Normal (entry_state w) (entry_world w)))"
  by (simp add: processDriveAuditBatch_def try_block_def processing_phase_def after_loop_def
        entry_state_def entry_world_def loaded_def getTime_def Let_def
        split: prod.splits completion.splits option.splits)

lemma entry_facts:
  "AUDIT_STATE (entry_world w) = Some (entry_state w)"
  "phase (entry_state w) \<noteq> SETUP"
  "filesProcessed (entry_state w) = filesProcessed (loaded w)"
  "auditDataCount (entry_state w) = auditDataCount (loaded w)"
  "pageToken (entry_state w) = pageToken (loaded w)"
  "drive_files (entry_world w) = drive_files w"
  "drive_permissions (entry_world w) = drive_permissions w"
  "clock (entry_world w) = clock w"
  "reads (entry_world w) = reads w + 1"
  "triggers (entry_world w) = triggers w"
  "summary_sheet (entry_world w) = summary_sheet w"
  "audit_sheet (entry_world w) = (if phase (loaded w) = SETUP then Some [headers] else audit_sheet w)"
  "log (entry_world w) = log w @ (if phase (loaded w) = SETUP then [SetProperty (entry_state w)] else [])"
  by (auto simp: entry_state_def entry_world_def loaded_def setup_phase_def getTime_def
        setProperty_def emit_def Let_def split: option.splits)

lemma checkpoint_eq:
  "scheduleAuditContinuation (setProperty st w) =
     w\<lparr>AUDIT_STATE := Some st,
       triggers := filter (\<lambda>h. h \<noteq> ''processDriveAuditBatch'') (triggers w)
                   @ [''processDriveAuditBatch''],
       log := log w @ checkpoint_events st\<rparr>"
  by (simp add: scheduleAuditContinuation_def setProperty_def deleteContinuationTriggers_def
        updateAuditStatus_def emit_def checkpoint_events_def CONTINUATION_DELAY_MINUTES_def Let_def)

lemma catch_block_eq:
  "catch_block TypeError w =
     w\<lparr>AUDIT_STATE := None,
       triggers := filter (\<lambda>h. h \<noteq> ''processDriveAuditBatch'') (triggers w),
       log := log w @ error_events\<rparr>"
  by (simp add: catch_block_def deleteProperty_def deleteContinuationTriggers_def
        updateAuditStatus_def emit_def error_events_def)

lemma after_loop_finalizing:
  assumes "phase st = FINALIZING"
  shows "after_loop (Normal st w) =
     w\<lparr>AUDIT_STATE := None,
       triggers := filter (\<lambda>h. h \<noteq> ''processDriveAuditBatch'') (triggers w),
       summary_sheet := (if audit_sheet w = None then summary_sheet w
                         else Some (filesProcessed st, auditDataCount st)),
       log := log w @ finalizing_events st (audit_sheet w \<noteq> None)\<rparr>"
  using assms
  by (auto simp: after_loop_def finalizing_phase_def finalizing_events_def catch_block_eq
        deleteProperty_def deleteContinuationTriggers_def updateAuditStatus_def emit_def
        Let_def split: option.splits)

lemma files_cong:
  "drive_files w' = drive_files w \<Longrightarrow> page_files w' = page_files w"
  "drive_files w' = drive_files w \<Longrightarrow> page_next w' = page_next w"
  by (simp_all add: page_files_def page_next_def fun_eq_iff)

lemma permissions_cong:
  assumes "drive_permissions w' = drive_permissions w"
  shows "permissions_of w' = permissions_of w" and "page_rows w' = page_rows w"
proof -
  show "permissions_of w' = permissions_of w"
    using assms
    by (auto simp: permissions_of_def getFilePermissions_def Let_def fun_eq_iff
          split: permissions_result.splits option.splits)
  then show "page_rows w' = page_rows w"
    by (simp add: page_rows_def fun_eq_iff)
qed

lemma page_cong:
  assumes "drive_files w' = drive_files w" and "drive_permissions w' = drive_permissions w"
  shows "page_state w' = page_state w" and "page_events e w' = page_events e w"
  using files_cong [OF assms(1)] permissions_cong [OF assms(2)]
  by (simp_all add: page_state_def page_events_def fun_eq_iff)

lemma loop_body_cases:
  obtains (exceeded) "MAX_EXECUTION_TIME < checked start w"
      "loop_body start st n w =
         ReturnI (w\<lparr>reads := reads w + 1, AUDIT_STATE := Some st,
                    triggers := filter (\<lambda>h. h \<noteq> ''processDriveAuditBatch'') (triggers w)
                                @ [''processDriveAuditBatch''],
                    log := log w @ BudgetCheck (checked start w) # checkpoint_events st\<rparr>)"
  | (no_files) "\<not> MAX_EXECUTION_TIME < checked start w" "page_files w (pageToken st) = []"
      "loop_body start st n w =
         Break (st\<lparr>phase := FINALIZING\<rparr>)
           (w\<lparr>reads := reads w + 1,
              log := log w @ [BudgetCheck (checked start w), ListFiles (pageToken st) 100]\<rparr>)"
  | (no_sheet) "\<not> MAX_EXECUTION_TIME < checked start w" "page_files w (pageToken st) \<noteq> []"
      "audit_sheet w = None"
      "loop_body start st n w =
         ThrowI TypeError
           (w\<lparr>reads := reads w + 1,
              log := log w @ [BudgetCheck (checked start w), ListFiles (pageToken st) 100]
                     @ permission_calls (page_files w (pageToken st))\<rparr>)"
  | (page) rows where "\<not> MAX_EXECUTION_TIME < checked start w"
      "page_files w (pageToken st) \<noteq> []" "audit_sheet w = Some rows"
      "loop_body start st n w =
         Continue (page_state w st) (n + length (page_files w (pageToken st)))
           (\<not> no_token (page_next w (pageToken st)))
           (w\<lparr>reads := reads w + 1,
              AUDIT_STATE := Some (page_state w st),
              audit_sheet := Some (rows @ page_rows w (page_files w (pageToken st))),
              log := log w @ page_events (checked start w) w st\<rparr>)"
proof (cases "MAX_EXECUTION_TIME < checked start w")
  case True
  then show ?thesis
    using exceeded loop_body_exceeded [OF True, of st n] by (simp add: checkpoint_events_def)
next
  case False
  show ?thesis
  proof (cases "page_files w (pageToken st) = []")
    case True
    then show ?thesis using no_files False loop_body_no_files [OF False True] by simp
  next
    case files: False
    show ?thesis
    proof (cases "audit_sheet w")
      case None
      then show ?thesis using no_sheet False files loop_body_no_sheet [OF False files None] by simp
    next
      case (Some rows)
      then show ?thesis using page False files loop_body_page [OF False files Some] by simp
    qed
  qed
qed

lemma loop_outcome:
  assumes init: "at_head w st0 n0 c0 w0" "log w0 = log w @ es0" "J st0 n0 es0"
    and page: "\<And>st n wh es rows.
        at_head w st n True wh \<Longrightarrow> log wh = log w @ es \<Longrightarrow> J st n es \<Longrightarrow> n < BATCH_SIZE
        \<Longrightarrow> \<not> MAX_EXECUTION_TIME < checked start wh \<Longrightarrow> page_files w (pageToken st) \<noteq> []
        \<Longrightarrow> audit_sheet wh = Some rows
        \<Longrightarrow> J (page_state w st) (n + length (page_files w (pageToken st)))
              (es @ page_events (checked start wh) w st)"
  shows "\<exists>st n c wh es.
      at_head w st n c wh \<and> log wh = log w @ es \<and> J st n es
      \<and> (c \<and> n < BATCH_SIZE \<longrightarrow>
           MAX_EXECUTION_TIME < checked start wh \<or> page_files w (pageToken st) = []
           \<or> audit_sheet wh = None)
      \<and> processing_loop start st0 n0 c0 w0 = loop_end start st n c wh"
proof (rule processing_loop_rule
    [where I = "\<lambda>st n c wh. at_head w st n c wh \<and> (\<exists>es. log wh = log w @ es \<and> J st n es)"
       and st = st0 and n = n0 and c = c0 and w = w0 and start = start])
  show "at_head w st0 n0 c0 w0 \<and> (\<exists>es. log w0 = log w @ es \<and> J st0 n0 es)"
    using init by blast
next
  fix st n c wh st' n' c' w'
  assume I: "at_head w st n c wh \<and> (\<exists>es. log wh = log w @ es \<and> J st n es)"
    and c: "c" and n: "n < BATCH_SIZE"
    and body: "loop_body start st n wh = Continue st' n' c' w'"
  from I obtain es where es: "log wh = log w @ es" "J st n es" by blast
  from I c have head: "at_head w st n True wh" by simp
  then have same: "drive_files wh = drive_files w" "drive_permissions wh = drive_permissions w"
    by (simp_all add: at_head_def)
  have cong: "page_files wh = page_files w" "page_next wh = page_next w"
      "page_rows wh = page_rows w" "page_state wh = page_state w"
      "page_events (checked start wh) wh = page_events (checked start wh) w"
    using files_cong [OF same(1)] permissions_cong [OF same(2)] page_cong [OF same]
    by simp_all
  show "at_head w st' n' c' w' \<and> (\<exists>es. log w' = log w @ es \<and> J st' n' es)"
  proof (cases rule: loop_body_cases [of start wh st n])
    case (page rows)
    have J': "J (page_state w st) (n + length (page_files w (pageToken st)))
        (es @ page_events (checked start wh) w st)"
      using page(1,2,3) by (intro assms(4) [OF head es n]) (simp_all add: cong)
    from page(4) body have eqs: "st' = page_state w st"
        "n' = n + length (page_files w (pageToken st))"
        "c' = (\<not> no_token (page_next w (pageToken st)))"
        "w' = wh\<lparr>reads := reads wh + 1, AUDIT_STATE := Some (page_state w st),
                audit_sheet := Some (rows @ page_rows w (page_files w (pageToken st))),
                log := log wh @ page_events (checked start wh) w st\<rparr>"
      by (simp_all add: cong)
    have "at_head w st' n' c' w'"
      using head page(3) unfolding eqs
      by (auto simp: at_head_def page_state_def Let_def)
    moreover have "log w' = log w @ (es @ page_events (checked start wh) w st)"
      unfolding eqs using es by simp
    ultimately show ?thesis using J' eqs by blast
  qed (use body in simp_all)
next
  fix st n c wh st' w'
  assume I: "at_head w st n c wh \<and> (\<exists>es. log wh = log w @ es \<and> J st n es)"
    and c: "c" and n: "n < BATCH_SIZE"
    and body: "loop_body start st n wh = Break st' w'"
  from I have "drive_files wh = drive_files w" by (simp add: at_head_def)
  then have cong: "page_files wh = page_files w" by (rule files_cong)
  have "Normal st' w' = loop_end start st n c wh"
    using body c n by (cases rule: loop_body_cases [of start wh st n]) (simp_all add: loop_end_def)
  moreover have "page_files w (pageToken st) = [] \<or> MAX_EXECUTION_TIME < checked start wh"
    using body cong by (cases rule: loop_body_cases [of start wh st n]) simp_all
  ultimately show "\<exists>st n c wh es.
      at_head w st n c wh \<and> log wh = log w @ es \<and> J st n es
      \<and> (c \<and> n < BATCH_SIZE \<longrightarrow>
           MAX_EXECUTION_TIME < checked start wh \<or> page_files w (pageToken st) = []
           \<or> audit_sheet wh = None)
      \<and> Normal st' w' = loop_end start st n c wh"
    using I by blast
next
  fix st n c wh w'
  assume I: "at_head w st n c wh \<and> (\<exists>es. log wh = log w @ es \<and> J st n es)"
    and c: "c" and n: "n < BATCH_SIZE"
    and body: "loop_body start st n wh = ReturnI w'"
  have "Returned w' = loop_end start st n c wh \<and> MAX_EXECUTION_TIME < checked start wh"
    using body c n by (cases rule: loop_body_cases [of start wh st n]) (simp_all add: loop_end_def)
  then show "\<exists>st n c wh es.
      at_head w st n c wh \<and> log wh = log w @ es \<and> J st n es
      \<and> (c \<and> n < BATCH_SIZE \<longrightarrow>
           MAX_EXECUTION_TIME < checked start wh \<or> page_files w (pageToken st) = []
           \<or> audit_sheet wh = None)
      \<and> Returned w' = loop_end start st n c wh"
    using I by blast
next
  fix st n c wh e w'
  assume I: "at_head w st n c wh \<and> (\<exists>es. log wh = log w @ es \<and> J st n es)"
    and c: "c" and n: "n < BATCH_SIZE"
    and body: "loop_body start st n wh = ThrowI e w'"
  have "Thrown e w' = loop_end start st n c wh \<and> audit_sheet wh = None"
    using body c n by (cases rule: loop_body_cases [of start wh st n]) (simp_all add: loop_end_def)
  then show "\<exists>st n c wh es.
      at_head w st n c wh \<and> log wh = log w @ es \<and> J st n es
      \<and> (c \<and> n < BATCH_SIZE \<longrightarrow>
           MAX_EXECUTION_TIME < checked start wh \<or> page_files w (pageToken st) = []
           \<or> audit_sheet wh = None)
      \<and> Thrown e w' = loop_end start st n c wh"
    using I by blast
next
  fix st1 n1 c1 wh1
  assume I: "at_head w st1 n1 c1 wh1 \<and> (\<exists>es. log wh1 = log w @ es \<and> J st1 n1 es)"
    and stop: "\<not> (c1 \<and> n1 < BATCH_SIZE)"
  then have "Normal st1 wh1 = loop_end start st1 n1 c1 wh1"
    by (auto simp: loop_end_def)
  then show "\<exists>st n c wh es.
      at_head w st n c wh \<and> log wh = log w @ es \<and> J st n es
      \<and> (c \<and> n < BATCH_SIZE \<longrightarrow>
           MAX_EXECUTION_TIME < checked start wh \<or> page_files w (pageToken st) = []
           \<or> audit_sheet wh = None)
      \<and> Normal st1 wh1 = loop_end start st n c wh"
    using I stop by blast
qed

lemma events_since_append [simp]:
  "log w' = log w @ es \<Longrightarrow> events_since w w' = es"
  by (simp add: events_since_def)

lemma invocation_cases:
  assumes J0': "phase (entry_state w) = PROCESSING \<longrightarrow> J (entry_state w) 0 (entry_events w)"
    and page': "\<forall>st n wh es rows.
        at_head w st n True wh \<longrightarrow> log wh = log w @ es \<longrightarrow> J st n es \<longrightarrow> n < BATCH_SIZE
        \<longrightarrow> \<not> MAX_EXECUTION_TIME < checked (clock w (reads w)) wh
        \<longrightarrow> page_files w (pageToken st) \<noteq> []
        \<longrightarrow> audit_sheet wh = Some rows
        \<longrightarrow> J (page_state w st) (n + length (page_files w (pageToken st)))
              (es @ page_events (checked (clock w (reads w)) wh) w st)"
  obtains
    (stored_finalizing)
      "phase (entry_state w) = FINALIZING"
      "AUDIT_STATE w = Some (entry_state w)"
      "events_since w (processDriveAuditBatch w) =
         finalizing_events (entry_state w) (audit_sheet w \<noteq> None)"
      "AUDIT_STATE (processDriveAuditBatch w) = None"
      "continuations (processDriveAuditBatch w) = []"
      "audit_sheet (processDriveAuditBatch w) = audit_sheet w"
  | (finished) st n es where
      "J st n es" "phase st = FINALIZING"
      "filesProcessed st = filesProcessed (entry_state w) + n"
      "events_since w (processDriveAuditBatch w) = es @ finalizing_events st True"
      "AUDIT_STATE (processDriveAuditBatch w) = None"
      "continuations (processDriveAuditBatch w) = []"
      "audit_sheet (processDriveAuditBatch w) \<noteq> None"
  | (batch_full) st n es where
      "J st n es" "phase st = PROCESSING" "BATCH_SIZE \<le> n"
      "filesProcessed st = filesProcessed (entry_state w) + n"
      "events_since w (processDriveAuditBatch w) = es @ checkpoint_events st"
      "AUDIT_STATE (processDriveAuditBatch w) = Some st"
      "continuations (processDriveAuditBatch w) = [''processDriveAuditBatch'']"
  | (exceeded) st n es e where
      "J st n es" "phase st = PROCESSING" "n < BATCH_SIZE" "MAX_EXECUTION_TIME < e"
      "filesProcessed st = filesProcessed (entry_state w) + n"
      "events_since w (processDriveAuditBatch w) = es @ BudgetCheck e # checkpoint_events st"
      "AUDIT_STATE (processDriveAuditBatch w) = Some st"
      "continuations (processDriveAuditBatch w) = [''processDriveAuditBatch'']"
      "\<exists>k. e = clock w k - clock w (reads w)"
  | (no_files) st n es e where
      "J st n es" "phase st = PROCESSING" "n < BATCH_SIZE" "\<not> MAX_EXECUTION_TIME < e"
      "page_files w (pageToken st) = []"
      "filesProcessed st = filesProcessed (entry_state w) + n"
      "events_since w (processDriveAuditBatch w) =
         es @ [BudgetCheck e, ListFiles (pageToken st) 100]
         @ finalizing_events (st\<lparr>phase := FINALIZING\<rparr>) (audit_sheet (entry_world w) \<noteq> None)"
      "AUDIT_STATE (processDriveAuditBatch w) = None"
      "continuations (processDriveAuditBatch w) = []"
      "audit_sheet (processDriveAuditBatch w) = None \<longleftrightarrow> audit_sheet (entry_world w) = None"
      "\<exists>k. e = clock w k - clock w (reads w)"
  | (no_sheet) st n es e where
      "J st n es" "phase st = PROCESSING" "n < BATCH_SIZE" "\<not> MAX_EXECUTION_TIME < e"
      "page_files w (pageToken st) \<noteq> []" "audit_sheet (entry_world w) = None"
      "filesProcessed st = filesProcessed (entry_state w) + n"
      "events_since w (processDriveAuditBatch w) =
         es @ [BudgetCheck e, ListFiles (pageToken st) 100]
         @ permission_calls (page_files w (pageToken st)) @ error_events"
      "AUDIT_STATE (processDriveAuditBatch w) = None"
      "continuations (processDriveAuditBatch w) = []"
      "audit_sheet (processDriveAuditBatch w) = None"
      "\<exists>k. e = clock w k - clock w (reads w)"
proof -
  have J0: "phase (entry_state w) = PROCESSING \<Longrightarrow> J (entry_state w) 0 (entry_events w)"
    using J0' by blast
  have page: "\<And>st n wh es rows.
        at_head w st n True wh \<Longrightarrow> log wh = log w @ es \<Longrightarrow> J st n es \<Longrightarrow> n < BATCH_SIZE
        \<Longrightarrow> \<not> MAX_EXECUTION_TIME < checked (clock w (reads w)) wh
        \<Longrightarrow> page_files w (pageToken st) \<noteq> []
        \<Longrightarrow> audit_sheet wh = Some rows
        \<Longrightarrow> J (page_state w st) (n + length (page_files w (pageToken st)))
              (es @ page_events (checked (clock w (reads w)) wh) w st)"
    using page' by blast
  show ?thesis
proof (cases "phase (entry_state w) = PROCESSING")
  case False
  with entry_facts(2) [of w] have fin: "phase (entry_state w) = FINALIZING"
    by (cases "phase (entry_state w)") simp_all
  then have stored: "phase (loaded w) \<noteq> SETUP" "entry_state w = loaded w" "entry_world w = snd (getTime w)"
    by (auto simp: entry_state_def entry_world_def setup_phase_def Let_def split: if_splits)
  then have some: "AUDIT_STATE w = Some (entry_state w)"
    by (auto simp: loaded_def split: option.splits)
  have run: "processDriveAuditBatch w = after_loop (Normal (entry_state w) (entry_world w))"
    using False by (simp add: processDriveAuditBatch_eq)
  show ?thesis
    apply (rule stored_finalizing [OF fin some])
    unfolding run after_loop_finalizing [OF fin]
    using stored by (simp_all add: getTime_def continuations_def)
next
  case True
  let ?start = "clock w (reads w)"
  let ?w1 = "updateAuditStatus RUNNING ProcessingMessage (filesProcessed (entry_state w)) 0
      (entry_world w)"
  have run: "processDriveAuditBatch w =
      after_loop (processing_loop ?start (entry_state w) 0 True ?w1)"
    using True by (simp add: processDriveAuditBatch_eq)
  have head0: "at_head w (entry_state w) 0 True ?w1"
    using True by (simp add: at_head_def updateAuditStatus_def emit_def entry_facts)
  have log0: "log ?w1 = log w @ entry_events w"
    using True by (simp add: updateAuditStatus_def emit_def entry_facts entry_events_def)
  have "\<exists>st n c wh es.
      at_head w st n c wh \<and> log wh = log w @ es \<and> J st n es
      \<and> (c \<and> n < BATCH_SIZE \<longrightarrow>
           MAX_EXECUTION_TIME < checked ?start wh \<or> page_files w (pageToken st) = []
           \<or> audit_sheet wh = None)
      \<and> processing_loop ?start (entry_state w) 0 True ?w1 = loop_end ?start st n c wh"
    by (rule loop_outcome [where J = J, OF head0 log0 J0 [OF True]]) (rule page, assumption+)
  then obtain st n c wh es where head: "at_head w st n c wh" and lg: "log wh = log w @ es"
    and J: "J st n es"
    and stuck: "c \<and> n < BATCH_SIZE \<longrightarrow>
      MAX_EXECUTION_TIME < checked ?start wh \<or> page_files w (pageToken st) = []
      \<or> audit_sheet wh = None"
    and loop: "processing_loop ?start (entry_state w) 0 True ?w1 = loop_end ?start st n c wh"
    by blast
  from head have files: "page_files wh = page_files w"
    by (intro files_cong) (simp add: at_head_def)
  from head have fp: "filesProcessed st = filesProcessed (entry_state w) + n"
    and sheet: "audit_sheet wh = None \<longleftrightarrow> audit_sheet (entry_world w) = None"
    and stored: "AUDIT_STATE wh = Some st"
    by (simp_all add: at_head_def)
  from head have ek: "\<exists>k. checked ?start wh = clock w k - clock w (reads w)"
    by (auto simp: at_head_def checked_def)
  show ?thesis
  proof (cases "c \<and> n < BATCH_SIZE")
    case False
    then have "loop_end ?start st n c wh = Normal st wh"
      by (auto simp: loop_end_def)
    then have r: "processDriveAuditBatch w = after_loop (Normal st wh)"
      using run loop by simp
    show ?thesis
    proof (cases c)
      case True
      with head have ph: "phase st = PROCESSING" by (simp add: at_head_def)
      from True False have n: "BATCH_SIZE \<le> n" by simp
      show ?thesis
        apply (rule batch_full [OF J ph n fp])
        unfolding r using ph lg
        by (simp_all add: after_loop_def checkpoint_eq continuations_def)
    next
      case c: False
      with head have ph: "phase st = FINALIZING" by (simp add: at_head_def)
      show ?thesis
      proof (cases "audit_sheet wh")
        case (Some rows)
        show ?thesis
          apply (rule finished [OF J ph fp])
          unfolding r after_loop_finalizing [OF ph] using lg Some
          by (simp_all add: continuations_def)
      next
        case None
        with head c show ?thesis by (simp add: at_head_def)
      qed
    qed
  next
    case True
    with head have ph: "phase st = PROCESSING" by (simp add: at_head_def)
    from True have n: "n < BATCH_SIZE" by simp
    show ?thesis
    proof (cases "MAX_EXECUTION_TIME < checked ?start wh")
      case over: True
      then have r: "processDriveAuditBatch w =
          wh\<lparr>reads := reads wh + 1, AUDIT_STATE := Some st,
             triggers := filter (\<lambda>h. h \<noteq> ''processDriveAuditBatch'') (triggers wh)
                         @ [''processDriveAuditBatch''],
             log := log wh @ BudgetCheck (checked ?start wh) # checkpoint_events st\<rparr>"
        using run loop True by (simp add: loop_end_def after_loop_def)
      show ?thesis
        apply (rule exceeded [OF J ph n over fp])
        unfolding r using lg ek by (simp_all add: continuations_def)
    next
      case under: False
      show ?thesis
      proof (cases "page_files w (pageToken st) = []")
        case empty: True
        let ?wb = "wh\<lparr>reads := reads wh + 1,
            log := log wh @ [BudgetCheck (checked ?start wh), ListFiles (pageToken st) 100]\<rparr>"
        have r: "processDriveAuditBatch w = after_loop (Normal (st\<lparr>phase := FINALIZING\<rparr>) ?wb)"
          using run loop True under empty files by (simp add: loop_end_def)
        have ph': "phase (st\<lparr>phase := FINALIZING\<rparr>) = FINALIZING" by simp
        show ?thesis
          apply (rule no_files [OF J ph n under empty fp])
          unfolding r after_loop_finalizing [OF ph'] using lg sheet ek
          by (simp_all add: continuations_def)
      next
        case nonempty: False
        with stuck True under have none: "audit_sheet wh = None" by simp
        have r: "processDriveAuditBatch w =
            catch_block TypeError
              (wh\<lparr>reads := reads wh + 1,
                  log := log wh @ [BudgetCheck (checked ?start wh), ListFiles (pageToken st) 100]
                         @ permission_calls (page_files w (pageToken st))\<rparr>)"
          using run loop True under nonempty files by (simp add: loop_end_def after_loop_def)
        show ?thesis
          apply (rule no_sheet [OF J ph n under nonempty _ fp])
          unfolding r catch_block_eq using lg sheet none ek
          by (simp_all add: continuations_def)
      qed
    qed
  qed
qed
qed

lemma statuses_Nil [simp]: "statuses [] = []"
  by (simp add: statuses_def List.map_filter_simps)

lemma statuses_Cons [simp]: "statuses (e # es) = (case status_of e of None \<Rightarrow> statuses es | Some s \<Rightarrow> s # statuses es)"
  by (simp add: statuses_def List.map_filter_simps split: option.splits)

lemma statuses_append [simp]: "statuses (xs @ ys) = statuses xs @ statuses ys"
  by (induction xs) (simp_all split: option.splits)

lemma statuses_permission_calls [simp]: "statuses (permission_calls fs) = []"
  by (induction fs) (simp_all add: permission_calls_def)

lemma statuses_checkpoint [simp]: "statuses (checkpoint_events st) = [RUNNING]"
  by (simp add: checkpoint_events_def)

lemma statuses_error [simp]: "statuses error_events = [ERROR]"
  by (simp add: error_events_def)

lemma statuses_finalizing [simp]:
  "statuses (finalizing_events st sheet) = [RUNNING, if sheet then COMPLETED else ERROR]"
  by (simp add: finalizing_events_def)

lemma statuses_page: "set (statuses (page_events e w st)) \<subseteq> {RUNNING}"
  by (simp add: page_events_def Let_def)

lemma statuses_entry: "set (statuses (entry_events w)) \<subseteq> {RUNNING}"
  by (simp add: entry_events_def)

lemmas run_defs =
  processDriveAuditBatch_def try_block_def setup_phase_def processing_phase_def
  finalizing_phase_def catch_block_def processing_loop.simps loop_body_def getTime_def
  getDriveFilesBatch_def getFilePermissions_def writeData_def setProperty_def deleteProperty_def
  updateAuditStatus_def scheduleAuditContinuation_def deleteContinuationTriggers_def emit_def
  alert_def no_token_def BATCH_SIZE_def MAX_EXECUTION_TIME_def CONTINUATION_DELAY_MINUTES_def
  continuations_def events_since_def Let_def example_world_def example_state_def

lemma entered_finalizing_events [simp]:
  "\<not> list_ex entered_finalizing (page_events e w st)"
  "\<not> list_ex entered_finalizing (entry_events w)"
  "\<not> list_ex entered_finalizing (checkpoint_events st)"
  "\<not> list_ex entered_finalizing (permission_calls fs)"
  "\<not> list_ex entered_finalizing error_events"
  "list_ex entered_finalizing (finalizing_events st sheet)"
  by (auto simp: page_events_def entry_events_def checkpoint_events_def permission_calls_def
        error_events_def finalizing_events_def Let_def list_ex_iff)

lemma ListFiles_in_events [simp]:
  "ListFiles t k \<in> set (page_events e w st) \<longleftrightarrow> t = pageToken st \<and> k = 100"
  "ListFiles t k \<notin> set (entry_events w)"
  "ListFiles t k \<notin> set (checkpoint_events st)"
  "ListFiles t k \<notin> set (permission_calls fs)"
  "ListFiles t k \<notin> set error_events"
  "ListFiles t k \<notin> set (finalizing_events st sheet)"
  by (auto simp: page_events_def entry_events_def checkpoint_events_def permission_calls_def
        error_events_def finalizing_events_def Let_def)

lemma page_files_throws: "drive_files w t 100 = FilesThrows \<Longrightarrow> page_files w t = []"
  by (simp add: page_files_def)

lemma over_budget_events [simp]:
  "list_ex over_budget (page_events e w st) \<longleftrightarrow> MAX_EXECUTION_TIME < e"
  "\<not> list_ex over_budget (entry_events w)"
  "\<not> list_ex over_budget (checkpoint_events st)"
  "\<not> list_ex over_budget (permission_calls fs)"
  "\<not> list_ex over_budget error_events"
  "\<not> list_ex over_budget (finalizing_events st sheet)"
  by (auto simp: page_events_def entry_events_def checkpoint_events_def permission_calls_def
        error_events_def finalizing_events_def Let_def list_ex_iff)

lemma items_processed_simps [simp]:
  "items_processed [] = 0"
  "items_processed (xs @ ys) = items_processed xs + items_processed ys"
  "items_processed (e # es) = (if is_permission_call e then 1 else 0) + items_processed es"
  by (simp_all add: items_processed_def)

lemma items_processed_events [simp]:
  "items_processed (permission_calls fs) = length fs"
  "items_processed (page_events e w st) = length (page_files w (pageToken st))"
  "items_processed (entry_events w) = 0"
  "items_processed (checkpoint_events st) = 0"
  "items_processed error_events = 0"
  "items_processed (finalizing_events st sheet) = 0"
proof -
  show *: "items_processed (permission_calls fs) = length fs" for fs
    by (induction fs) (simp_all add: permission_calls_def)
  show "items_processed (page_events e w st) = length (page_files w (pageToken st))"
    by (simp add: page_events_def Let_def *)
qed (simp_all add: entry_events_def checkpoint_events_def error_events_def finalizing_events_def)

lemma permissions_of_recovered [simp]: "permissions_of (recovered w) = permissions_of w"
  by (auto simp: permissions_of_def getFilePermissions_def recovered_def emit_def Let_def fun_eq_iff
        split: permissions_result.splits option.splits)

lemma page_rows_recovered [simp]: "page_rows (recovered w) = page_rows w"
  by (simp add: page_rows_def fun_eq_iff)

lemma recovered_fields [simp]:
  "drive_files (recovered w) = drive_files w"
  "clock (recovered w) = clock w"
  "reads (recovered w) = reads w"
  "AUDIT_STATE (recovered w) = AUDIT_STATE w"
  "triggers (recovered w) = triggers w"
  "audit_sheet (recovered w) = audit_sheet w"
  "summary_sheet (recovered w) = summary_sheet w"
  "log (recovered w) = log w"
  by (simp_all add: recovered_def)

lemma recovered_updates [simp]:
  "(recovered w)\<lparr>reads := r\<rparr> = recovered (w\<lparr>reads := r\<rparr>)"
  "(recovered w)\<lparr>AUDIT_STATE := a\<rparr> = recovered (w\<lparr>AUDIT_STATE := a\<rparr>)"
  "(recovered w)\<lparr>triggers := t\<rparr> = recovered (w\<lparr>triggers := t\<rparr>)"
  "(recovered w)\<lparr>audit_sheet := sh\<rparr> = recovered (w\<lparr>audit_sheet := sh\<rparr>)"
  "(recovered w)\<lparr>summary_sheet := su\<rparr> = recovered (w\<lparr>summary_sheet := su\<rparr>)"
  "(recovered w)\<lparr>log := l\<rparr> = recovered (w\<lparr>log := l\<rparr>)"
  by (simp_all add: recovered_def)

lemma recovered_page [simp]:
  "page_files (recovered w) = page_files w"
  "page_next (recovered w) = page_next w"
  "page_state (recovered w) = page_state w"
  "page_events e (recovered w) = page_events e w"
  "checked start (recovered w) = checked start w"
  by (simp_all add: page_files_def page_next_def page_state_def page_events_def checked_def
        fun_eq_iff)

lemma loop_body_recovered:
  "loop_body start st n (recovered w) = recovered_iteration (loop_body start st n w)"
proof (cases rule: loop_body_cases [of start w st n])
  case exceeded
  then show ?thesis
    using loop_body_exceeded [of start "recovered w" st n]
    by (simp add: recovered_iteration_def checkpoint_events_def)
next
  case no_files
  then show ?thesis
    using loop_body_no_files [of start "recovered w" st n]
    by (simp add: recovered_iteration_def)
next
  case no_sheet
  then show ?thesis
    using loop_body_no_sheet [of start "recovered w" st n]
    by (simp add: recovered_iteration_def)
next
  case (page rows)
  then show ?thesis
    using loop_body_page [of start "recovered w" st rows n]
    by (simp add: recovered_iteration_def)
qed

lemma processing_loop_recovered:
  "processing_loop start st n c (recovered w) =
     recovered_completion (processing_loop start st n c w)"
proof (induction start st n c w rule: processing_loop.induct)
  case (1 start st n c w)
  show ?case
  proof (cases "c \<and> n < BATCH_SIZE")
    case False
    then show ?thesis
      by (subst (1 2) processing_loop.simps) (auto simp: recovered_completion_def)
  next
    case True
    show ?thesis
    proof (cases "loop_body start st n w")
      case (Continue st' n' c' w')
      then show ?thesis
        using True "1.IH" [OF True Continue]
        by (subst (1 2) processing_loop.simps)
          (simp add: loop_body_recovered recovered_iteration_def)
    qed (use True in \<open>subst (1 2) processing_loop.simps,
          simp add: loop_body_recovered recovered_iteration_def recovered_completion_def\<close>)+
  qed
qed

lemma operations_recovered [simp]:
  "setProperty st (recovered w) = recovered (setProperty st w)"
  "deleteProperty (recovered w) = recovered (deleteProperty w)"
  "updateAuditStatus s m a b (recovered w) = recovered (updateAuditStatus s m a b w)"
  "deleteContinuationTriggers (recovered w) = recovered (deleteContinuationTriggers w)"
  "scheduleAuditContinuation (recovered w) = recovered (scheduleAuditContinuation w)"
  "catch_block e (recovered w) = recovered (catch_block e w)"
  by (simp_all add: setProperty_def deleteProperty_def updateAuditStatus_def
        deleteContinuationTriggers_def scheduleAuditContinuation_def catch_block_def emit_def
        Let_def)

lemma after_loop_recovered:
  "after_loop (recovered_completion r) = recovered (after_loop r)"
  by (cases r)
    (simp_all add: after_loop_def recovered_completion_def finalizing_phase_def Let_def
      split: option.splits)

lemma loaded_recovered [simp]: "loaded (recovered w) = loaded w"
  by (simp add: loaded_def split: option.splits)

lemma entry_recovered [simp]:
  "entry_state (recovered w) = entry_state w"
  "entry_world (recovered w) = recovered (entry_world w)"
  by (simp_all add: entry_state_def entry_world_def setup_phase_def getTime_def Let_def)







lemma quiet_events [simp]:
  "x \<in> set (permission_calls fs) \<Longrightarrow> \<not> is_fetch x \<and> \<not> is_check x"
  "x \<in> set (checkpoint_events st) \<Longrightarrow> \<not> is_fetch x \<and> \<not> is_check x"
  "x \<in> set error_events \<Longrightarrow> \<not> is_fetch x \<and> \<not> is_check x"
  "x \<in> set (finalizing_events st sheet) \<Longrightarrow> \<not> is_fetch x \<and> \<not> is_check x"
  "x \<in> set (entry_events w) \<Longrightarrow> \<not> is_fetch x \<and> \<not> is_check x"
  by (auto simp: permission_calls_def checkpoint_events_def error_events_def
        finalizing_events_def entry_events_def split: if_splits)

lemma page_events_shape:
  obtains tail where
    "page_events e w st = BudgetCheck e # ListFiles (pageToken st) 100 # tail"
    "\<forall>x \<in> set tail. \<not> is_fetch x \<and> \<not> is_check x"
    "tail \<noteq> []" "last tail = SetProperty (page_state w st)"
    "take (length (page_files w (pageToken st))) tail = permission_calls (page_files w (pageToken st))"
proof
  let ?fs = "page_files w (pageToken st)"
  let ?st' = "page_state w st"
  let ?tail = "permission_calls ?fs @ [SetValues (page_rows w ?fs)]
      @ (if filesProcessed ?st' mod 50 = 0
         then [Status RUNNING (ProgressMessage (filesProcessed ?st')) (filesProcessed ?st') 0]
         else [])
      @ [SetProperty ?st']"
  show "page_events e w st = BudgetCheck e # ListFiles (pageToken st) 100 # ?tail"
    by (simp add: page_events_def Let_def)
  show "\<forall>x \<in> set ?tail. \<not> is_fetch x \<and> \<not> is_check x"
    by auto
  show "?tail \<noteq> []" by simp
  show "last ?tail = SetProperty ?st'" by simp
  show "take (length ?fs) ?tail = permission_calls ?fs"
    by (simp add: permission_calls_def)
qed






lemma checkpointed_append:
  "checkpointed s fp rc (xs @ ys) \<longleftrightarrow>
     checkpointed s fp rc xs
     \<and> checkpointed (stored_after s xs) (fp + items_processed xs) (rc + rows_written xs) ys"
proof (induction xs arbitrary: s fp rc)
  case (Cons x xs)
  then show ?case by (cases x) (auto simp: add.assoc)
qed simp

lemma quiet_checkpointed:
  "\<forall>x \<in> set xs. \<not> is_fetch x \<and> \<not> is_check x \<Longrightarrow> checkpointed s fp rc xs"
proof (induction xs arbitrary: s fp rc)
  case (Cons x xs)
  then show ?case by (cases x) simp_all
qed simp

lemma walk_permission_calls [simp]:
  "stored_after s (permission_calls fs) = s"
  "rows_written (permission_calls fs) = 0"
  by (induction fs) (simp_all add: permission_calls_def)

lemma walk_append [simp]:
  "stored_after s (xs @ ys) = stored_after (stored_after s xs) ys"
  "rows_written (xs @ ys) = rows_written xs + rows_written ys"
proof -
  show "stored_after s (xs @ ys) = stored_after (stored_after s xs) ys"
  proof (induction xs arbitrary: s)
    case (Cons x xs)
    then show ?case by (cases x) simp_all
  qed simp
  show "rows_written (xs @ ys) = rows_written xs + rows_written ys"
  proof (induction xs)
    case (Cons x xs)
    then show ?case by (cases x) simp_all
  qed simp
qed

lemma walk_page:
  "stored_after s (page_events e w st) = Some (page_state w st)"
  "rows_written (page_events e w st) = length (page_rows w (page_files w (pageToken st)))"
  "checkpointed (Some st) (filesProcessed st) (auditDataCount st) (page_events e w st)"
proof -
  show "stored_after s (page_events e w st) = Some (page_state w st)"
    by (simp add: page_events_def Let_def)
  show "rows_written (page_events e w st) = length (page_rows w (page_files w (pageToken st)))"
    by (simp add: page_events_def Let_def)
  obtain tail where tail: "page_events e w st = BudgetCheck e # ListFiles (pageToken st) 100 # tail"
    "\<forall>x \<in> set tail. \<not> is_fetch x \<and> \<not> is_check x"
    by (rule page_events_shape)
  show "checkpointed (Some st) (filesProcessed st) (auditDataCount st) (page_events e w st)"
    unfolding tail(1) using quiet_checkpointed [OF tail(2)]
    by (simp add: up_to_date_def cursor_is_def)
qed

lemma entry_walk:
  assumes "phase (entry_state w) = PROCESSING"
  shows "stored_after (AUDIT_STATE w) (entry_events w) = Some (entry_state w)"
    and "rows_written (entry_events w) = 0"
    and "checkpointed (AUDIT_STATE w) fp rc (entry_events w)"
  using assms
  by (auto simp: entry_events_def entry_state_def loaded_def setup_phase_def Let_def
        split: option.splits if_splits)

lemma partial_pages_run:
  "items_processed (events_since partial_pages_world (processDriveAuditBatch partial_pages_world))
     = 594
   \<and> \<not> list_ex over_budget
       (events_since partial_pages_world (processDriveAuditBatch partial_pages_world))
   \<and> (\<exists>st. AUDIT_STATE (processDriveAuditBatch partial_pages_world) = Some st
         \<and> filesProcessed st = 594 \<and> phase st = PROCESSING)
   \<and> continuations (processDriveAuditBatch partial_pages_world) = [''processDriveAuditBatch'']"
proof -
  let ?w = partial_pages_world
  let ?J = "\<lambda>st n es. items_processed es = n \<and> 99 dvd n \<and> n \<le> 594 \<and> phase st = PROCESSING
      \<and> \<not> list_ex over_budget es"
  have files: "page_files ?w t = replicate 99 (example_file ''f'')" for t
    by (simp add: partial_pages_world_def example_world_def page_files_def)
  have nxt: "page_next ?w t = Some ''next''" for t
    by (simp add: partial_pages_world_def example_world_def page_next_def)
  have entry: "phase (entry_state ?w) = PROCESSING" "filesProcessed (entry_state ?w) = 0"
    "audit_sheet (entry_world ?w) = Some [headers]"
    by (simp_all add: partial_pages_world_def example_world_def entry_state_def entry_world_def
          loaded_def setup_phase_def getTime_def setProperty_def emit_def Let_def)
  have time: "clock ?w k - clock ?w (reads ?w) = 0" for k
    by (simp add: partial_pages_world_def example_world_def)
  have J0: "phase (entry_state ?w) = PROCESSING \<longrightarrow> ?J (entry_state ?w) 0 (entry_events ?w)"
    by (simp add: entry)
  have step: "n + 99 \<le> 594" if "99 dvd n" "n < 500" for n :: nat
    using that by presburger
  have page: "\<forall>st n wh es rows.
      at_head ?w st n True wh \<longrightarrow> log wh = log ?w @ es \<longrightarrow> ?J st n es \<longrightarrow> n < BATCH_SIZE
      \<longrightarrow> \<not> MAX_EXECUTION_TIME < checked (clock ?w (reads ?w)) wh
      \<longrightarrow> page_files ?w (pageToken st) \<noteq> []
      \<longrightarrow> audit_sheet wh = Some rows
      \<longrightarrow> ?J (page_state ?w st) (n + length (page_files ?w (pageToken st)))
            (es @ page_events (checked (clock ?w (reads ?w)) wh) ?w st)"
    using step by (simp add: files nxt page_state_def no_token_def BATCH_SIZE_def Let_def)
  have last_step: "n = 594" if "99 dvd n" "n \<le> 594" "500 \<le> n" for n :: nat
    using that by presburger
  from J0 page show ?thesis
  proof (cases rule: invocation_cases [where J = ?J and w = ?w])
    case (batch_full st n es)
    then show ?thesis
      using last_step [of n] by (simp add: entry BATCH_SIZE_def)
  next
    case (exceeded st n es e)
    then show ?thesis
      using time by (auto simp: MAX_EXECUTION_TIME_def)
  qed (simp_all add: entry files)
qed

lemma rows_appended_append [simp]:
  "rows_appended (es @ es') = rows_appended es @ rows_appended es'"
  by (induction es rule: rows_appended.induct) simp_all

lemma rows_appended_permission_calls [simp]: "rows_appended (permission_calls fs) = []"
  by (induction fs) (simp_all add: permission_calls_def)

lemma rows_appended_events [simp]:
  "rows_appended (checkpoint_events st) = []"
  "rows_appended error_events = []"
  "rows_appended (finalizing_events st sheet) = []"
  "rows_appended (entry_events w) = []"
  "rows_appended (page_events e w st) = page_rows w (page_files w (pageToken st))"
  by (simp_all add: checkpoint_events_def error_events_def finalizing_events_def entry_events_def
        page_events_def Let_def)

lemma fetched_files_append [simp]:
  "fetched_files w (es @ es') = fetched_files w es @ fetched_files w es'"
  by (induction w es rule: fetched_files.induct) simp_all

lemma fetched_files_permission_calls [simp]: "fetched_files w (permission_calls fs) = []"
  by (induction fs) (simp_all add: permission_calls_def)

lemma fetched_files_events [simp]:
  "fetched_files w (checkpoint_events st) = []"
  "fetched_files w error_events = []"
  "fetched_files w (finalizing_events st sheet) = []"
  "fetched_files w (entry_events w') = []"
  "fetched_files w (page_events e w st) = page_files w (pageToken st)"
  by (simp_all add: checkpoint_events_def error_events_def finalizing_events_def entry_events_def
        page_events_def Let_def)

lemma page_rows_append: "page_rows w (fs @ fs') = page_rows w fs @ page_rows w fs'"
  by (simp add: page_rows_def)

lemma permission_calls_append:
  "permission_calls [] = []"
  "permission_calls (fs @ fs') = permission_calls fs @ permission_calls fs'"
  by (simp_all add: permission_calls_def)

lemma filter_permission_calls:
  "filter is_permission_call (permission_calls fs) = permission_calls fs"
  by (induction fs) (simp_all add: permission_calls_def)

lemma filter_permission_call_events:
  "filter is_permission_call (checkpoint_events st) = []"
  "filter is_permission_call error_events = []"
  "filter is_permission_call (finalizing_events st sheet) = []"
  "filter is_permission_call (entry_events w) = []"
  "filter is_permission_call (page_events e w st) = permission_calls (page_files w (pageToken st))"
  by (simp_all add: checkpoint_events_def error_events_def finalizing_events_def entry_events_def
        page_events_def filter_permission_calls Let_def)

lemmas fetched_simps =
  page_rows_append permission_calls_append filter_permission_calls filter_permission_call_events

lemma sheet_logged_loop:
  assumes "sheet_logged w0 sheet0 w"
  shows "sheet_logged w0 sheet0 (completion_world (processing_loop start st n c w))"
proof (rule processing_loop_rule
    [where I = "\<lambda>st n c w. sheet_logged w0 sheet0 w"
       and Q = "\<lambda>r. sheet_logged w0 sheet0 (completion_world r)"])
  show "sheet_logged w0 sheet0 w"
    by (rule assms)
next
  fix st n c w st' n' c' w'
  assume I: "sheet_logged w0 sheet0 w" and body: "loop_body start st n w = Continue st' n' c' w'"
  show "sheet_logged w0 sheet0 w'"
  proof (cases rule: loop_body_cases [of start w st n])
    case (page rows)
    with body I show ?thesis
      by (cases sheet0) (auto simp: sheet_logged_def)
  qed (use body in simp_all)
next
  fix st n c w st' w'
  assume I: "sheet_logged w0 sheet0 w" and body: "loop_body start st n w = Break st' w'"
  show "sheet_logged w0 sheet0 (completion_world (Normal st' w'))"
  proof (cases rule: loop_body_cases [of start w st n])
    case no_files
    with body I show ?thesis
      by (auto simp: sheet_logged_def completion_world_def)
  qed (use body in simp_all)
next
  fix st n c w w'
  assume I: "sheet_logged w0 sheet0 w" and body: "loop_body start st n w = ReturnI w'"
  show "sheet_logged w0 sheet0 (completion_world (Returned w'))"
  proof (cases rule: loop_body_cases [of start w st n])
    case exceeded
    with body I show ?thesis
      by (auto simp: sheet_logged_def completion_world_def)
  qed (use body in simp_all)
next
  fix st n c w e w'
  assume I: "sheet_logged w0 sheet0 w" and body: "loop_body start st n w = ThrowI e w'"
  show "sheet_logged w0 sheet0 (completion_world (Thrown e w'))"
  proof (cases rule: loop_body_cases [of start w st n])
    case no_sheet
    with body I show ?thesis
      by (auto simp: sheet_logged_def completion_world_def)
  qed (use body in simp_all)
next
  fix st n c w
  assume "sheet_logged w0 sheet0 w"
  then show "sheet_logged w0 sheet0 (completion_world (Normal st w))"
    by (simp add: completion_world_def)
qed

lemma sheet_logged_after_loop:
  assumes "sheet_logged w0 sheet0 (completion_world r)"
  shows "sheet_logged w0 sheet0 (after_loop r)"
proof (cases r)
  case (Normal st w)
  show ?thesis
  proof (cases "phase st")
    case SETUP
    with Normal assms show ?thesis
      by (simp add: after_loop_def finalizing_phase_def completion_world_def)
  next
    case PROCESSING
    with Normal assms show ?thesis
      by (auto simp: after_loop_def checkpoint_eq completion_world_def sheet_logged_def)
  next
    case FINALIZING
    with Normal assms show ?thesis
      by (auto simp: after_loop_finalizing completion_world_def sheet_logged_def)
  qed
next
  case (Returned w)
  with assms show ?thesis
    by (simp add: after_loop_def completion_world_def)
next
  case (Thrown e w)
  with assms show ?thesis
    by (cases e) (auto simp: after_loop_def catch_block_eq completion_world_def sheet_logged_def)
qed

lemma invocation_sheet:
  "\<exists>es. log (processDriveAuditBatch w) = log w @ es
     \<and> audit_sheet (processDriveAuditBatch w) =
         map_option (\<lambda>rows. rows @ rows_appended es) (audit_sheet (entry_world w))"
proof -
  have entry: "sheet_logged w (audit_sheet (entry_world w)) (entry_world w)"
    by (simp add: sheet_logged_def entry_facts option.map_ident)
  then have entry': "sheet_logged w (audit_sheet (entry_world w))
      (updateAuditStatus RUNNING ProcessingMessage k 0 (entry_world w))" for k
    by (auto simp: sheet_logged_def updateAuditStatus_def emit_def)
  have "sheet_logged w (audit_sheet (entry_world w)) (processDriveAuditBatch w)"
    unfolding processDriveAuditBatch_eq
    using entry entry'
    by (auto intro!: sheet_logged_after_loop sheet_logged_loop simp: completion_world_def)
  then show ?thesis
    by (simp add: sheet_logged_def)
qed

lemma invocation_sheet_events:
  "audit_sheet (processDriveAuditBatch w) =
     map_option (\<lambda>rows. rows @ rows_appended (events_since w (processDriveAuditBatch w)))
       (audit_sheet (entry_world w))"
  using invocation_sheet [of w] by auto

section \<open>The claims\<close>

subsection \<open>C2: row expansion\<close>

text \<open>
  Claim C2, as stated, fails for a resumed job whose sheet \<^verbatim>\<open>Drive Audit\<close> has been
  deleted. The two files of the next page are processed (the counters are incremented and
  the permissions of each are fetched), then \<^verbatim>\<open>auditSheet.getLastRow()\<close> throws on the
  null sheet: no row is appended for either file, and the \<^verbatim>\<open>catch\<close> reports
  \<^verbatim>\<open>ERROR\<close>.
\<close>

theorem rows_not_appended_counterexample:
  "AUDIT_STATE deleted_sheet_world = Some example_state
   \<and> phase example_state = PROCESSING
   \<and> audit_sheet deleted_sheet_world = None
   \<and> events_since deleted_sheet_world (processDriveAuditBatch deleted_sheet_world) =
       [Status RUNNING ProcessingMessage 100 0,
        BudgetCheck 0,
        ListFiles (Some ''p2'') 100,
        ListPermissions ''a'',
        ListPermissions ''b'',
        Status ERROR (ErrorMessage TypeError) 0 0,
        DeleteProperty,
        DeleteTriggers]
   \<and> audit_sheet (processDriveAuditBatch deleted_sheet_world) = None"
  by (simp add: deleted_sheet_world_def run_defs example_file_def)

text \<open>
  Claim C2, amended. A file contributes \<open>max 1 k\<close> rows, \<open>k\<close> the number of permissions
  returned for it. With no permission it is one row whose last six cells are \<open>0\<close> and
  five empty strings. With \<open>k > 0\<close> permissions it is one row per permission, in order;
  every row has 15 cells, the first nine are the cells of the file, the last six those of
  the permission.

  In every invocation the files processed, one permission call each, are the files of the
  pages fetched, in order. If the audit sheet exists when the \<^verbatim>\<open>PROCESSING\<close> block is
  entered (a fresh job has just created it, a resumed job looks it up), the sheet after the
  invocation is that sheet followed by the rows of these files, file after file: for every
  file processed, its \<open>max 1 k\<close> rows have been appended. If the sheet is missing, nothing
  is appended, and an invocation that fetched a page with files in it ends in
  \<^verbatim>\<open>ERROR\<close>.
\<close>

theorem row_expansion:
  "length (file_rows f ps) = max 1 (length ps)
   \<and> (ps = [] \<longrightarrow>
        file_rows f ps =
          [file_cells f @ [Number 0, Text '''', Text '''', Text '''', Text '''', Text '''']])
   \<and> (\<forall>r \<in> set (file_rows f ps). length r = 15 \<and> take 9 r = file_cells f)
   \<and> (ps \<noteq> [] \<longrightarrow> map (drop 9) (file_rows f ps) = map (permission_cells ps) ps)
   \<and> filter is_permission_call (events_since w (processDriveAuditBatch w)) =
        permission_calls (fetched_files w (events_since w (processDriveAuditBatch w)))
   \<and> (\<forall>rows. audit_sheet (entry_world w) = Some rows \<longrightarrow>
        audit_sheet (processDriveAuditBatch w) =
          Some (rows @ concat (map (\<lambda>f. file_rows f (permissions_of w (file_id f)))
                                 (fetched_files w (events_since w (processDriveAuditBatch w))))))
   \<and> (audit_sheet (entry_world w) = None \<longrightarrow>
        audit_sheet (processDriveAuditBatch w) = None
        \<and> rows_appended (events_since w (processDriveAuditBatch w)) = []
        \<and> (fetched_files w (events_since w (processDriveAuditBatch w)) \<noteq> [] \<longrightarrow>
             last (statuses (events_since w (processDriveAuditBatch w))) = ERROR))"
proof -
  let ?E = "events_since w (processDriveAuditBatch w)"
  let ?J = "\<lambda>(st :: audit_state) (n :: nat) es.
      rows_appended es = page_rows w (fetched_files w es)
      \<and> filter is_permission_call es = permission_calls (fetched_files w es)
      \<and> (audit_sheet (entry_world w) = None \<longrightarrow> fetched_files w es = [])"
  have len: "length (file_cells f) = 9"
    by (simp add: file_cells_def)
  have one: "length (file_rows f ps) = max 1 (length ps)"
    by (cases ps) (simp_all add: file_rows_def)
  have two: "ps = [] \<longrightarrow>
      file_rows f ps =
        [file_cells f @ [Number 0, Text '''', Text '''', Text '''', Text '''', Text '''']]"
    by (simp add: file_rows_def no_permission_cells_def)
  have three: "\<forall>r \<in> set (file_rows f ps). length r = 15 \<and> take 9 r = file_cells f"
    using len by (auto simp: file_rows_def no_permission_cells_def permission_cells_def)
  have four: "ps \<noteq> [] \<longrightarrow> map (drop 9) (file_rows f ps) = map (permission_cells ps) ps"
    using len by (simp add: file_rows_def)
  have J0: "phase (entry_state w) = PROCESSING \<longrightarrow> ?J (entry_state w) 0 (entry_events w)"
    by (simp add: fetched_simps)
  have page: "\<forall>st n wh es rows.
      at_head w st n True wh \<longrightarrow> log wh = log w @ es \<longrightarrow> ?J st n es \<longrightarrow> n < BATCH_SIZE
      \<longrightarrow> \<not> MAX_EXECUTION_TIME < checked (clock w (reads w)) wh
      \<longrightarrow> page_files w (pageToken st) \<noteq> []
      \<longrightarrow> audit_sheet wh = Some rows
      \<longrightarrow> ?J (page_state w st) (n + length (page_files w (pageToken st)))
            (es @ page_events (checked (clock w (reads w)) wh) w st)"
    by (auto simp: at_head_def fetched_simps)
  have trace: "filter is_permission_call ?E = permission_calls (fetched_files w ?E)
      \<and> (audit_sheet (entry_world w) \<noteq> None \<longrightarrow>
            rows_appended ?E = page_rows w (fetched_files w ?E))
      \<and> (audit_sheet (entry_world w) = None \<longrightarrow>
            rows_appended ?E = []
            \<and> (fetched_files w ?E \<noteq> [] \<longrightarrow> last (statuses ?E) = ERROR))"
    using J0 page
  proof (cases rule: invocation_cases [where J = ?J and w = w])
    case stored_finalizing
    then show ?thesis by (simp add: fetched_simps)
  next
    case (finished st n es)
    then show ?thesis by (simp add: fetched_simps)
  next
    case (batch_full st n es)
    then show ?thesis by (simp add: fetched_simps)
  next
    case (exceeded st n es e)
    then show ?thesis by (simp add: fetched_simps)
  next
    case (no_files st n es e)
    then show ?thesis by (simp add: fetched_simps)
  next
    case (no_sheet st n es e)
    then show ?thesis by (simp add: fetched_simps)
  qed
  have sheet: "audit_sheet (processDriveAuditBatch w) =
      map_option (\<lambda>rows. rows @ rows_appended ?E) (audit_sheet (entry_world w))"
    by (rule invocation_sheet_events)
  have five: "\<forall>rows. audit_sheet (entry_world w) = Some rows \<longrightarrow>
      audit_sheet (processDriveAuditBatch w) =
        Some (rows @ concat (map (\<lambda>f. file_rows f (permissions_of w (file_id f)))
                               (fetched_files w ?E)))"
    using trace sheet by (simp add: page_rows_def)
  have six: "audit_sheet (entry_world w) = None \<longrightarrow>
      audit_sheet (processDriveAuditBatch w) = None
      \<and> rows_appended ?E = []
      \<and> (fetched_files w ?E \<noteq> [] \<longrightarrow> last (statuses ?E) = ERROR)"
    using trace sheet by simp
  from one two three four trace five six show ?thesis
    by blast
qed

text \<open>
  A file without permissions and one with two; a fresh job of two pages, whose sheet ends
  as the header row and the rows of the three files; the resumed job without its sheet.
\<close>

theorem row_expansion_witness:
  "file_rows (example_file ''f1'') [] =
     [[Text ''report'', Text ''f1'', Text ''ann@example.com'', Text ''PDF'',
       Text ''application/pdf'', DateValue ''2024-01-01T00:00:00Z'', Text '''', Text ''120'',
       Text '''', Number 0, Text '''', Text '''', Text '''', Text '''', Text '''']]
   \<and> length (file_rows (example_file ''f1'')
         [example_permission ''owner'', example_permission ''reader'']) = 2
   \<and> map (drop 9) (file_rows (example_file ''f1'')
         [example_permission ''owner'', example_permission ''reader'']) =
       [[Number 2, Text ''user'', Text ''owner'', Text ''bob@example.com'', Text '''', Text ''Bob''],
        [Number 2, Text ''user'', Text ''reader'', Text ''bob@example.com'', Text '''', Text ''Bob'']]
   \<and> take 9 (hd (file_rows (example_file ''f1'')
         [example_permission ''owner'', example_permission ''reader''])) =
       file_cells (example_file ''f1'')
   \<and> audit_sheet (entry_world two_page_world) = Some [headers]
   \<and> fetched_files two_page_world
       (events_since two_page_world (processDriveAuditBatch two_page_world)) =
       [example_file ''a'', example_file ''b'', example_file ''c'']
   \<and> audit_sheet (processDriveAuditBatch two_page_world) =
       Some (headers
             # file_rows (example_file ''a'')
                 [example_permission ''owner'', example_permission ''reader'']
             @ file_rows (example_file ''b'')
                 [example_permission ''owner'', example_permission ''reader'']
             @ file_rows (example_file ''c'')
                 [example_permission ''owner'', example_permission ''reader''])
   \<and> audit_sheet (entry_world deleted_sheet_world) = None
   \<and> fetched_files deleted_sheet_world
       (events_since deleted_sheet_world (processDriveAuditBatch deleted_sheet_world)) =
       [example_file ''a'', example_file ''b'']
   \<and> audit_sheet (processDriveAuditBatch deleted_sheet_world) = None
   \<and> last (statuses (events_since deleted_sheet_world (processDriveAuditBatch deleted_sheet_world)))
       = ERROR"
proof -
  have a: "audit_sheet (entry_world two_page_world) = Some [headers]"
    by (simp add: two_page_world_def example_world_def entry_world_def loaded_def setup_phase_def
          getTime_def setProperty_def emit_def Let_def)
  have b: "fetched_files two_page_world
      (events_since two_page_world (processDriveAuditBatch two_page_world)) =
      [example_file ''a'', example_file ''b'', example_file ''c'']"
    by (simp add: two_page_world_def run_defs page_files_def file_rows_def)
  have c: "permissions_of two_page_world i =
      [example_permission ''owner'', example_permission ''reader'']" for i
    by (simp add: two_page_world_def example_world_def permissions_of_def getFilePermissions_def
          emit_def)
  have d: "audit_sheet (entry_world deleted_sheet_world) = None"
    by (simp add: deleted_sheet_world_def example_world_def example_state_def entry_world_def
          loaded_def setup_phase_def getTime_def)
  have e: "fetched_files deleted_sheet_world
      (events_since deleted_sheet_world (processDriveAuditBatch deleted_sheet_world)) =
      [example_file ''a'', example_file ''b'']"
    by (simp add: deleted_sheet_world_def run_defs page_files_def file_rows_def)
  show ?thesis
    using row_expansion [of "example_file ''f1''" "[]" two_page_world]
      row_expansion [of "example_file ''f1''"
        "[example_permission ''owner'', example_permission ''reader'']" deleted_sheet_world]
      a b c d e
    by (simp add: example_file_def example_permission_def file_cells_def permission_cells_def
          getFileType_def date_cell_def or_empty_def file_rows_def)
qed

subsection \<open>C8: cancelRunningAudit\<close>

text \<open>
  Claim C8, as stated, fails: with a stored state, the function first asks for
  confirmation, and when the user answers NO the state, the continuation trigger and the
  status stay as they were.
\<close>

theorem cancel_declined_counterexample:
  "AUDIT_STATE running_world = Some example_state
   \<and> AUDIT_STATE (cancelRunningAudit NO running_world) = Some example_state
   \<and> continuations (cancelRunningAudit NO running_world) = [''processDriveAuditBatch'']
   \<and> statuses (events_since running_world (cancelRunningAudit NO running_world)) = []"
  by (simp add: running_world_def example_world_def cancelRunningAudit_def alert_def emit_def
        continuations_def statuses_def events_since_def List.map_filter_simps)

text \<open>
  Claim C8, amended. With a stored state and the answer YES, \<^verbatim>\<open>cancelRunningAudit\<close>
  deletes the state, deletes every continuation trigger, reports \<^verbatim>\<open>CANCELLED\<close> once
  and leaves the rows of the audit sheet as they are; with the answer NO it only shows the
  dialog. With no stored state it only shows the alert \<^verbatim>\<open>No Running Audit\<close>.
\<close>

theorem cancel_confirmed:
  "(AUDIT_STATE w \<noteq> None \<longrightarrow>
      AUDIT_STATE (cancelRunningAudit YES w) = None
      \<and> continuations (cancelRunningAudit YES w) = []
      \<and> statuses (events_since w (cancelRunningAudit YES w)) = [CANCELLED]
      \<and> audit_sheet (cancelRunningAudit YES w) = audit_sheet w)
   \<and> (AUDIT_STATE w \<noteq> None \<longrightarrow>
      cancelRunningAudit NO w = alert ''Cancel Running Audit?'' w)
   \<and> (AUDIT_STATE w = None \<longrightarrow> cancelRunningAudit b w = alert ''No Running Audit'' w)"
  by (auto simp: cancelRunningAudit_def alert_def emit_def deleteProperty_def
        deleteContinuationTriggers_def updateAuditStatus_def continuations_def statuses_def
        events_since_def List.map_filter_simps Let_def)

theorem cancel_confirmed_witness:
  "AUDIT_STATE running_world \<noteq> None
   \<and> AUDIT_STATE (cancelRunningAudit YES running_world) = None
   \<and> continuations (cancelRunningAudit YES running_world) = []
   \<and> statuses (events_since running_world (cancelRunningAudit YES running_world)) = [CANCELLED]
   \<and> audit_sheet (cancelRunningAudit YES running_world) = Some [headers]
   \<and> AUDIT_STATE (cancelRunningAudit YES running_world) = None
   \<and> cancelRunningAudit NO (cancelRunningAudit YES running_world) =
       alert ''No Running Audit'' (cancelRunningAudit YES running_world)"
  using cancel_confirmed [of running_world] cancel_confirmed [of "cancelRunningAudit YES running_world" NO]
  by (simp add: running_world_def example_world_def)

subsection \<open>C4: terminal cleanup\<close>

text \<open>
  Claim C4. When an invocation of \<^verbatim>\<open>processDriveAuditBatch\<close> reports
  \<^verbatim>\<open>COMPLETED\<close> or \<^verbatim>\<open>ERROR\<close>, and when \<^verbatim>\<open>cancelRunningAudit\<close> reports
  \<^verbatim>\<open>CANCELLED\<close>, the property \<^verbatim>\<open>AUDIT_STATE\<close> is absent afterwards and no trigger
  for \<^verbatim>\<open>processDriveAuditBatch\<close> is registered.
\<close>

theorem terminal_cleanup:
  "(COMPLETED \<in> set (statuses (events_since w (processDriveAuditBatch w)))
    \<or> ERROR \<in> set (statuses (events_since w (processDriveAuditBatch w)))
    \<longrightarrow> AUDIT_STATE (processDriveAuditBatch w) = None
        \<and> continuations (processDriveAuditBatch w) = [])
   \<and> (CANCELLED \<in> set (statuses (events_since w (cancelRunningAudit b w)))
    \<longrightarrow> AUDIT_STATE (cancelRunningAudit b w) = None
        \<and> continuations (cancelRunningAudit b w) = [])"
proof
  let ?J = "\<lambda>(st :: audit_state) (n :: nat) es. set (statuses es) \<subseteq> {RUNNING}"
  have J0: "phase (entry_state w) = PROCESSING \<longrightarrow> ?J (entry_state w) 0 (entry_events w)"
    by (simp add: statuses_entry)
  have page: "\<forall>st n wh es rows.
      at_head w st n True wh \<longrightarrow> log wh = log w @ es \<longrightarrow> ?J st n es \<longrightarrow> n < BATCH_SIZE
      \<longrightarrow> \<not> MAX_EXECUTION_TIME < checked (clock w (reads w)) wh
      \<longrightarrow> page_files w (pageToken st) \<noteq> []
      \<longrightarrow> audit_sheet wh = Some rows
      \<longrightarrow> ?J (page_state w st) (n + length (page_files w (pageToken st)))
            (es @ page_events (checked (clock w (reads w)) wh) w st)"
    using statuses_page by simp
  from J0 page
  show "COMPLETED \<in> set (statuses (events_since w (processDriveAuditBatch w)))
    \<or> ERROR \<in> set (statuses (events_since w (processDriveAuditBatch w)))
    \<longrightarrow> AUDIT_STATE (processDriveAuditBatch w) = None
        \<and> continuations (processDriveAuditBatch w) = []"
  proof (cases rule: invocation_cases [where J = ?J and w = w])
    case (batch_full st n es)
    then show ?thesis by auto
  next
    case (exceeded st n es e)
    then show ?thesis by auto
  qed simp_all
  show "CANCELLED \<in> set (statuses (events_since w (cancelRunningAudit b w)))
    \<longrightarrow> AUDIT_STATE (cancelRunningAudit b w) = None
        \<and> continuations (cancelRunningAudit b w) = []"
    by (cases b)
      (auto simp: cancelRunningAudit_def alert_def emit_def deleteProperty_def
        deleteContinuationTriggers_def updateAuditStatus_def continuations_def
        events_since_def Let_def split: option.splits)
qed

text \<open>
  The three terminal reports, each at an input that leads to it.
\<close>

theorem terminal_cleanup_witness:
  "COMPLETED \<in> set (statuses (events_since running_world (processDriveAuditBatch running_world)))
   \<and> AUDIT_STATE (processDriveAuditBatch running_world) = None
   \<and> continuations (processDriveAuditBatch running_world) = []
   \<and> ERROR \<in> set (statuses (events_since missing_sheet_world
        (processDriveAuditBatch missing_sheet_world)))
   \<and> AUDIT_STATE (processDriveAuditBatch missing_sheet_world) = None
   \<and> continuations (processDriveAuditBatch missing_sheet_world) = []
   \<and> CANCELLED \<in> set (statuses (events_since running_world
        (cancelRunningAudit YES running_world)))
   \<and> AUDIT_STATE (cancelRunningAudit YES running_world) = None
   \<and> continuations (cancelRunningAudit YES running_world) = []"
proof -
  have a: "COMPLETED \<in> set (statuses (events_since running_world
      (processDriveAuditBatch running_world)))"
    by (simp add: running_world_def run_defs)
  have b: "ERROR \<in> set (statuses (events_since missing_sheet_world
      (processDriveAuditBatch missing_sheet_world)))"
    by (simp add: missing_sheet_world_def run_defs)
  have c: "CANCELLED \<in> set (statuses (events_since running_world
      (cancelRunningAudit YES running_world)))"
    by (simp add: running_world_def run_defs cancelRunningAudit_def)
  show ?thesis
    using terminal_cleanup [of running_world YES] terminal_cleanup [of missing_sheet_world YES]
      a b c by blast
qed

subsection \<open>C6: ERROR and CANCELLED after FINALIZING\<close>

text \<open>
  Claim C6, as stated, fails, for \<^verbatim>\<open>ERROR\<close> and for \<^verbatim>\<open>CANCELLED\<close>.

  A resumed job in \<^verbatim>\<open>PROCESSING\<close> whose listing is over enters \<^verbatim>\<open>FINALIZING\<close> (it
  reports \<^verbatim>\<open>Finalizing audit...\<close>); the sheet \<^verbatim>\<open>Drive Audit\<close> has been deleted, so
  \<^verbatim>\<open>auditSheet.getLastRow()\<close> throws inside the \<^verbatim>\<open>try\<close> and the \<^verbatim>\<open>catch\<close>
  reports \<^verbatim>\<open>ERROR\<close>.

  The last pass of the loop saves a state whose phase is \<^verbatim>\<open>FINALIZING\<close> (line 324), as
  the job of two pages shows. \<^verbatim>\<open>cancelRunningAudit\<close> does not read the phase: where
  that state is the stored one and the user confirms, it reports \<^verbatim>\<open>CANCELLED\<close>.
\<close>

theorem finalizing_left_counterexample:
  "events_since missing_sheet_world (processDriveAuditBatch missing_sheet_world) =
     [Status RUNNING ProcessingMessage 100 0,
      BudgetCheck 0,
      ListFiles (Some ''p2'') 100,
      Status RUNNING FinalizingMessage 100 100,
      Status ERROR (ErrorMessage TypeError) 0 0,
      DeleteProperty,
      DeleteTriggers]
   \<and> phase last_page_state = FINALIZING
   \<and> SetProperty last_page_state
       \<in> set (events_since two_page_world (processDriveAuditBatch two_page_world))
   \<and> AUDIT_STATE finalizing_stored_world = Some last_page_state
   \<and> statuses (events_since finalizing_stored_world
                 (cancelRunningAudit YES finalizing_stored_world)) = [CANCELLED]"
proof -
  have a: "events_since missing_sheet_world (processDriveAuditBatch missing_sheet_world) =
     [Status RUNNING ProcessingMessage 100 0,
      BudgetCheck 0,
      ListFiles (Some ''p2'') 100,
      Status RUNNING FinalizingMessage 100 100,
      Status ERROR (ErrorMessage TypeError) 0 0,
      DeleteProperty,
      DeleteTriggers]"
    by (simp add: missing_sheet_world_def run_defs)
  have b: "SetProperty last_page_state
      \<in> set (events_since two_page_world (processDriveAuditBatch two_page_world))"
    by (simp add: two_page_world_def run_defs example_file_def example_permission_def
          file_rows_def last_page_state_def)
  have c: "statuses (events_since finalizing_stored_world
                 (cancelRunningAudit YES finalizing_stored_world)) = [CANCELLED]"
    by (simp add: finalizing_stored_world_def example_world_def cancelRunningAudit_def alert_def
          emit_def deleteProperty_def deleteContinuationTriggers_def updateAuditStatus_def
          statuses_def events_since_def List.map_filter_simps Let_def)
  have d: "phase last_page_state = FINALIZING"
    "AUDIT_STATE finalizing_stored_world = Some last_page_state"
    by (simp_all add: last_page_state_def finalizing_stored_world_def example_world_def)
  from a b c d show ?thesis
    by blast
qed

text \<open>
  Claim C6, amended. \<^verbatim>\<open>ERROR\<close> and \<^verbatim>\<open>CANCELLED\<close> are reachable from
  \<^verbatim>\<open>FINALIZING\<close> too. An invocation that has entered \<^verbatim>\<open>FINALIZING\<close> ends with the
  report \<^verbatim>\<open>COMPLETED\<close> or \<^verbatim>\<open>ERROR\<close>, \<^verbatim>\<open>ERROR\<close> exactly when the audit sheet
  is missing (the exception is caught like any other), and in both cases the state is
  deleted and no continuation trigger is left. When the stored state is in
  \<^verbatim>\<open>FINALIZING\<close>, a confirmed \<^verbatim>\<open>cancelRunningAudit\<close> reports \<^verbatim>\<open>CANCELLED\<close>,
  deletes the state and leaves no continuation trigger.
\<close>

theorem finalizing_ends:
  "(list_ex entered_finalizing (events_since w (processDriveAuditBatch w)) \<longrightarrow>
      (last (statuses (events_since w (processDriveAuditBatch w))) = COMPLETED
       \<or> last (statuses (events_since w (processDriveAuditBatch w))) = ERROR)
      \<and> (last (statuses (events_since w (processDriveAuditBatch w))) = ERROR
           \<longleftrightarrow> audit_sheet (processDriveAuditBatch w) = None)
      \<and> AUDIT_STATE (processDriveAuditBatch w) = None
      \<and> continuations (processDriveAuditBatch w) = [])
   \<and> (AUDIT_STATE w = Some st \<and> phase st = FINALIZING \<longrightarrow>
        statuses (events_since w (cancelRunningAudit YES w)) = [CANCELLED]
        \<and> AUDIT_STATE (cancelRunningAudit YES w) = None
        \<and> continuations (cancelRunningAudit YES w) = [])"
proof -
  let ?J = "\<lambda>(st :: audit_state) (n :: nat) es.
      set (statuses es) \<subseteq> {RUNNING} \<and> \<not> list_ex entered_finalizing es"
  have J0: "phase (entry_state w) = PROCESSING \<longrightarrow> ?J (entry_state w) 0 (entry_events w)"
    by (simp add: statuses_entry)
  have page: "\<forall>st n wh es rows.
      at_head w st n True wh \<longrightarrow> log wh = log w @ es \<longrightarrow> ?J st n es \<longrightarrow> n < BATCH_SIZE
      \<longrightarrow> \<not> MAX_EXECUTION_TIME < checked (clock w (reads w)) wh
      \<longrightarrow> page_files w (pageToken st) \<noteq> []
      \<longrightarrow> audit_sheet wh = Some rows
      \<longrightarrow> ?J (page_state w st) (n + length (page_files w (pageToken st)))
            (es @ page_events (checked (clock w (reads w)) wh) w st)"
    using statuses_page by simp
  have run: "list_ex entered_finalizing (events_since w (processDriveAuditBatch w)) \<longrightarrow>
      (last (statuses (events_since w (processDriveAuditBatch w))) = COMPLETED
       \<or> last (statuses (events_since w (processDriveAuditBatch w))) = ERROR)
      \<and> (last (statuses (events_since w (processDriveAuditBatch w))) = ERROR
           \<longleftrightarrow> audit_sheet (processDriveAuditBatch w) = None)
      \<and> AUDIT_STATE (processDriveAuditBatch w) = None
      \<and> continuations (processDriveAuditBatch w) = []"
    using J0 page
    by (cases rule: invocation_cases [where J = ?J and w = w]) auto
  have cancel: "AUDIT_STATE w = Some st \<and> phase st = FINALIZING \<longrightarrow>
      statuses (events_since w (cancelRunningAudit YES w)) = [CANCELLED]
      \<and> AUDIT_STATE (cancelRunningAudit YES w) = None
      \<and> continuations (cancelRunningAudit YES w) = []"
    by (auto simp: cancelRunningAudit_def alert_def emit_def deleteProperty_def
          deleteContinuationTriggers_def updateAuditStatus_def continuations_def statuses_def
          events_since_def List.map_filter_simps Let_def)
  from run cancel show ?thesis
    by blast
qed

theorem finalizing_ends_witness:
  "list_ex entered_finalizing
     (events_since missing_sheet_world (processDriveAuditBatch missing_sheet_world))
   \<and> last (statuses (events_since missing_sheet_world (processDriveAuditBatch missing_sheet_world)))
       = ERROR
   \<and> audit_sheet (processDriveAuditBatch missing_sheet_world) = None
   \<and> AUDIT_STATE (processDriveAuditBatch missing_sheet_world) = None
   \<and> continuations (processDriveAuditBatch missing_sheet_world) = []
   \<and> AUDIT_STATE finalizing_stored_world = Some last_page_state
   \<and> phase last_page_state = FINALIZING
   \<and> statuses (events_since finalizing_stored_world
                 (cancelRunningAudit YES finalizing_stored_world)) = [CANCELLED]
   \<and> AUDIT_STATE (cancelRunningAudit YES finalizing_stored_world) = None
   \<and> continuations (cancelRunningAudit YES finalizing_stored_world) = []"
proof -
  have a: "list_ex entered_finalizing
      (events_since missing_sheet_world (processDriveAuditBatch missing_sheet_world))"
    by (simp add: missing_sheet_world_def run_defs)
  have b: "last (statuses
      (events_since missing_sheet_world (processDriveAuditBatch missing_sheet_world))) = ERROR"
    by (simp add: missing_sheet_world_def run_defs)
  have c: "AUDIT_STATE finalizing_stored_world = Some last_page_state"
    "phase last_page_state = FINALIZING"
    by (simp_all add: last_page_state_def finalizing_stored_world_def example_world_def)
  show ?thesis
    using finalizing_ends [of missing_sheet_world last_page_state]
      finalizing_ends [of finalizing_stored_world last_page_state] a b c
    by blast
qed

subsection \<open>C1: a page fetch that fails\<close>

text \<open>
  Claim C1, as stated, fails. \<^verbatim>\<open>getDriveFilesBatch\<close> catches the exception of
  \<^verbatim>\<open>Drive.Files.list\<close> and returns null, which the loop takes for the end of the
  listing: the job is finalized and \<^verbatim>\<open>COMPLETED\<close> is reported, \<^verbatim>\<open>ERROR\<close> is not.
\<close>

theorem page_fetch_failure_counterexample:
  "drive_files running_world (Some ''p2'') 100 = FilesThrows
   \<and> events_since running_world (processDriveAuditBatch running_world) =
       [Status RUNNING ProcessingMessage 100 0,
        BudgetCheck 0,
        ListFiles (Some ''p2'') 100,
        Status RUNNING FinalizingMessage 100 100,
        Status COMPLETED (CompletedMessage 100 130) 100 100,
        DeleteProperty,
        DeleteTriggers]"
  by (simp add: running_world_def run_defs)

text \<open>
  Claim C1, amended. If a page listing call of the invocation throws, the invocation
  enters \<^verbatim>\<open>FINALIZING\<close>, and at its end the state is deleted and no continuation
  trigger is left; when the audit sheet exists, the last report is \<^verbatim>\<open>COMPLETED\<close> and
  \<^verbatim>\<open>ERROR\<close> is never reported.
\<close>

theorem page_fetch_failure_finalizes:
  assumes "ListFiles t k \<in> set (events_since w (processDriveAuditBatch w))"
    and "drive_files w t k = FilesThrows"
  shows "list_ex entered_finalizing (events_since w (processDriveAuditBatch w))
    \<and> AUDIT_STATE (processDriveAuditBatch w) = None
    \<and> continuations (processDriveAuditBatch w) = []
    \<and> (audit_sheet (processDriveAuditBatch w) \<noteq> None \<longrightarrow>
         last (statuses (events_since w (processDriveAuditBatch w))) = COMPLETED
         \<and> ERROR \<notin> set (statuses (events_since w (processDriveAuditBatch w))))"
proof -
  let ?J = "\<lambda>(st :: audit_state) (n :: nat) es.
      set (statuses es) \<subseteq> {RUNNING}
      \<and> (\<forall>t k. ListFiles t k \<in> set es \<longrightarrow> drive_files w t k \<noteq> FilesThrows)"
  have J0: "phase (entry_state w) = PROCESSING \<longrightarrow> ?J (entry_state w) 0 (entry_events w)"
    by (simp add: statuses_entry)
  have page: "\<forall>st n wh es rows.
      at_head w st n True wh \<longrightarrow> log wh = log w @ es \<longrightarrow> ?J st n es \<longrightarrow> n < BATCH_SIZE
      \<longrightarrow> \<not> MAX_EXECUTION_TIME < checked (clock w (reads w)) wh
      \<longrightarrow> page_files w (pageToken st) \<noteq> []
      \<longrightarrow> audit_sheet wh = Some rows
      \<longrightarrow> ?J (page_state w st) (n + length (page_files w (pageToken st)))
            (es @ page_events (checked (clock w (reads w)) wh) w st)"
    using statuses_page page_files_throws by auto
  from J0 page show ?thesis
  proof (cases rule: invocation_cases [where J = ?J and w = w])
    case stored_finalizing
    then show ?thesis using assms by simp
  next
    case (finished st n es)
    then show ?thesis using assms by auto
  next
    case (batch_full st n es)
    then show ?thesis using assms by auto
  next
    case (exceeded st n es e)
    then show ?thesis using assms by auto
  next
    case (no_files st n es e)
    then show ?thesis by auto
  next
    case (no_sheet st n es e)
    then show ?thesis using assms page_files_throws by auto
  qed
qed

theorem page_fetch_failure_finalizes_witness:
  "ListFiles (Some ''p2'') 100 \<in> set (events_since running_world (processDriveAuditBatch running_world))
   \<and> drive_files running_world (Some ''p2'') 100 = FilesThrows
   \<and> audit_sheet (processDriveAuditBatch running_world) \<noteq> None
   \<and> list_ex entered_finalizing (events_since running_world (processDriveAuditBatch running_world))
   \<and> AUDIT_STATE (processDriveAuditBatch running_world) = None
   \<and> continuations (processDriveAuditBatch running_world) = []
   \<and> last (statuses (events_since running_world (processDriveAuditBatch running_world))) = COMPLETED
   \<and> ERROR \<notin> set (statuses (events_since running_world (processDriveAuditBatch running_world)))"
proof -
  have a: "ListFiles (Some ''p2'') 100
      \<in> set (events_since running_world (processDriveAuditBatch running_world))"
    by (simp add: running_world_def run_defs)
  have b: "drive_files running_world (Some ''p2'') 100 = FilesThrows"
    by (simp add: running_world_def example_world_def)
  have c: "audit_sheet (processDriveAuditBatch running_world) \<noteq> None"
    by (simp add: running_world_def run_defs)
  show ?thesis
    using page_fetch_failure_finalizes [OF a b] a b c by blast
qed

subsection \<open>C5: the status report of a budget checkpoint\<close>

text \<open>
  Claim C5, as stated, fails. A job that has processed 100 files and finds the budget
  exceeded saves its state and schedules a continuation; the \<^verbatim>\<open>RUNNING\<close> report that
  \<^verbatim>\<open>scheduleAuditContinuation\<close> makes carries the counters 0 and 0.
\<close>

theorem checkpoint_report_counterexample:
  "events_since budget_world (processDriveAuditBatch budget_world) =
     [Status RUNNING ProcessingMessage 100 0,
      BudgetCheck 300000,
      SetProperty example_state,
      DeleteTriggers,
      CreateTrigger ''processDriveAuditBatch'' 60000,
      Status RUNNING (ContinuationMessage 1) 0 0]
   \<and> filesProcessed example_state = 100"
  by (simp add: budget_world_def run_defs)

text \<open>
  Claim C5, amended. When a budget check of the invocation finds the time exceeded, the
  last event of the invocation is the \<^verbatim>\<open>RUNNING\<close> report of
  \<^verbatim>\<open>scheduleAuditContinuation\<close>, with the counters 0 and 0; the progress is in the
  state stored at that checkpoint, whose \<^verbatim>\<open>filesProcessed\<close> is the loaded count plus
  the files processed in this invocation.
\<close>

theorem checkpoint_report:
  assumes "list_ex over_budget (events_since w (processDriveAuditBatch w))"
  shows "last (events_since w (processDriveAuditBatch w)) = Status RUNNING (ContinuationMessage 1) 0 0
    \<and> (\<exists>st. AUDIT_STATE (processDriveAuditBatch w) = Some st
         \<and> filesProcessed st =
             filesProcessed (loaded w) + items_processed (events_since w (processDriveAuditBatch w)))"
proof -
  let ?J = "\<lambda>(st :: audit_state) (n :: nat) es. \<not> list_ex over_budget es \<and> items_processed es = n"
  have J0: "phase (entry_state w) = PROCESSING \<longrightarrow> ?J (entry_state w) 0 (entry_events w)"
    by simp
  have page: "\<forall>st n wh es rows.
      at_head w st n True wh \<longrightarrow> log wh = log w @ es \<longrightarrow> ?J st n es \<longrightarrow> n < BATCH_SIZE
      \<longrightarrow> \<not> MAX_EXECUTION_TIME < checked (clock w (reads w)) wh
      \<longrightarrow> page_files w (pageToken st) \<noteq> []
      \<longrightarrow> audit_sheet wh = Some rows
      \<longrightarrow> ?J (page_state w st) (n + length (page_files w (pageToken st)))
            (es @ page_events (checked (clock w (reads w)) wh) w st)"
    by simp
  from J0 page show ?thesis
  proof (cases rule: invocation_cases [where J = ?J and w = w])
    case (exceeded st n es e)
    then show ?thesis by (simp add: checkpoint_events_def entry_facts)
  qed (use assms in auto)
qed

theorem checkpoint_report_witness:
  "list_ex over_budget (events_since budget_world (processDriveAuditBatch budget_world))
   \<and> last (events_since budget_world (processDriveAuditBatch budget_world)) =
       Status RUNNING (ContinuationMessage 1) 0 0
   \<and> (\<exists>st. AUDIT_STATE (processDriveAuditBatch budget_world) = Some st
        \<and> filesProcessed st =
            filesProcessed (loaded budget_world)
            + items_processed (events_since budget_world (processDriveAuditBatch budget_world)))"
proof -
  have a: "list_ex over_budget (events_since budget_world (processDriveAuditBatch budget_world))"
    by (simp add: budget_world_def run_defs)
  show ?thesis
    using checkpoint_report [OF a] a by blast
qed

subsection \<open>C7: a permission fetch that fails\<close>

text \<open>
  Claim C7. When the permission call of a file throws, \<^verbatim>\<open>getFilePermissions\<close> returns
  the empty list, the file contributes its single row with the empty permission cells, and
  \<^verbatim>\<open>forEach\<close> goes on with the remaining files of the page. For the whole invocation a
  permission call that throws is the same as one that returns no permission: running in the
  world where every failing call returns an empty list gives the same result (same rows,
  same state, same reports), so the job reaches its end as it would without the failure.
\<close>

theorem permission_failure_recovered:
  "(drive_permissions w (file_id f) = PermissionsThrows \<longrightarrow>
      getFilePermissions (file_id f) w = ([], emit (ListPermissions (file_id f)) w)
      \<and> processFiles (f # fs) st n d w =
          processFiles fs (st\<lparr>filesProcessed := filesProcessed st + 1\<rparr>) (n + 1)
            (d @ [file_cells f @ [Number 0, Text '''', Text '''', Text '''', Text '''', Text '''']])
            (emit (ListPermissions (file_id f)) w))
   \<and> processDriveAuditBatch (recovered w) = recovered (processDriveAuditBatch w)"
proof
  show "drive_permissions w (file_id f) = PermissionsThrows \<longrightarrow>
      getFilePermissions (file_id f) w = ([], emit (ListPermissions (file_id f)) w)
      \<and> processFiles (f # fs) st n d w =
          processFiles fs (st\<lparr>filesProcessed := filesProcessed st + 1\<rparr>) (n + 1)
            (d @ [file_cells f @ [Number 0, Text '''', Text '''', Text '''', Text '''', Text '''']])
            (emit (ListPermissions (file_id f)) w)"
    by (simp add: getFilePermissions_def file_rows_def no_permission_cells_def Let_def)
  show "processDriveAuditBatch (recovered w) = recovered (processDriveAuditBatch w)"
  proof (cases "phase (entry_state w) = PROCESSING")
    case True
    then show ?thesis
      by (simp add: processDriveAuditBatch_eq processing_loop_recovered after_loop_recovered)
  next
    case False
    then show ?thesis
      using after_loop_recovered [of "Normal (entry_state w) (entry_world w)"]
      by (simp add: processDriveAuditBatch_eq recovered_completion_def)
  qed
qed

text \<open>
  Scenario C of the specification: three files with 2, a failure and 1 permissions give
  2 + 1 + 1 data rows under the header row, and the job reports \<^verbatim>\<open>COMPLETED\<close>.
\<close>

theorem permission_failure_recovered_witness:
  "drive_permissions scenario_c_world (file_id (example_file ''b'')) = PermissionsThrows
   \<and> getFilePermissions ''b'' scenario_c_world = ([], emit (ListPermissions ''b'') scenario_c_world)
   \<and> map length (the (audit_sheet (processDriveAuditBatch scenario_c_world))) = [15, 15, 15, 15, 15]
   \<and> map (drop 9) (the (audit_sheet (processDriveAuditBatch scenario_c_world))) =
       [drop 9 headers,
        [Number 2, Text ''user'', Text ''owner'', Text ''bob@example.com'', Text '''', Text ''Bob''],
        [Number 2, Text ''user'', Text ''reader'', Text ''bob@example.com'', Text '''', Text ''Bob''],
        [Number 0, Text '''', Text '''', Text '''', Text '''', Text ''''],
        [Number 1, Text ''user'', Text ''owner'', Text ''bob@example.com'', Text '''', Text ''Bob'']]
   \<and> statuses (events_since scenario_c_world (processDriveAuditBatch scenario_c_world)) =
       [RUNNING, RUNNING, COMPLETED]
   \<and> audit_sheet (processDriveAuditBatch (recovered scenario_c_world)) =
       audit_sheet (processDriveAuditBatch scenario_c_world)"
proof -
  have a: "drive_permissions scenario_c_world (file_id (example_file ''b'')) = PermissionsThrows"
    by (simp add: scenario_c_world_def example_world_def example_file_def)
  have b: "map length (the (audit_sheet (processDriveAuditBatch scenario_c_world))) =
      [15, 15, 15, 15, 15]"
    by (simp add: scenario_c_world_def run_defs example_file_def example_permission_def
          file_rows_def file_cells_def permission_cells_def no_permission_cells_def headers_def)
  have c: "map (drop 9) (the (audit_sheet (processDriveAuditBatch scenario_c_world))) =
       [drop 9 headers,
        [Number 2, Text ''user'', Text ''owner'', Text ''bob@example.com'', Text '''', Text ''Bob''],
        [Number 2, Text ''user'', Text ''reader'', Text ''bob@example.com'', Text '''', Text ''Bob''],
        [Number 0, Text '''', Text '''', Text '''', Text '''', Text ''''],
        [Number 1, Text ''user'', Text ''owner'', Text ''bob@example.com'', Text '''', Text ''Bob'']]"
    by (simp add: scenario_c_world_def run_defs example_file_def example_permission_def
          file_rows_def file_cells_def permission_cells_def no_permission_cells_def or_empty_def)
  have d: "statuses (events_since scenario_c_world (processDriveAuditBatch scenario_c_world)) =
       [RUNNING, RUNNING, COMPLETED]"
    by (simp add: scenario_c_world_def run_defs example_file_def example_permission_def)
  show ?thesis
    using permission_failure_recovered [of scenario_c_world "example_file ''b''"] a b c d
    by (simp add: example_file_def)
qed

subsection \<open>C3: the time budget is checked once per page\<close>



subsection \<open>C9: the state is saved after every page\<close>

text \<open>
  Claim C9. Walk through the log of an invocation, from the state stored before it, counting
  the files processed and the rows written: at every budget check and at every fetch of a
  page, a state is stored whose counters count all the files processed and all the rows
  written so far, and the page fetched is the one at the cursor of that stored state. So
  the state, with the advanced cursor and the updated counters, has been saved after every
  page and before the next one is fetched, whether or not a budget checkpoint occurs.
\<close>

theorem state_saved_after_every_page:
  "checkpointed (AUDIT_STATE w) (filesProcessed (loaded w)) (auditDataCount (loaded w))
     (events_since w (processDriveAuditBatch w))"
proof -
  let ?s = "AUDIT_STATE w" and ?fp = "filesProcessed (loaded w)"
  let ?rc = "auditDataCount (loaded w)"
  let ?J = "\<lambda>st (n :: nat) es.
      checkpointed ?s ?fp ?rc es \<and> stored_after ?s es = Some st
      \<and> ?fp + items_processed es = filesProcessed st
      \<and> ?rc + rows_written es = auditDataCount st"
  have J0: "phase (entry_state w) = PROCESSING \<longrightarrow> ?J (entry_state w) 0 (entry_events w)"
    by (simp add: entry_walk entry_facts)
  have page: "\<forall>st n wh es rows.
      at_head w st n True wh \<longrightarrow> log wh = log w @ es \<longrightarrow> ?J st n es \<longrightarrow> n < BATCH_SIZE
      \<longrightarrow> \<not> MAX_EXECUTION_TIME < checked (clock w (reads w)) wh
      \<longrightarrow> page_files w (pageToken st) \<noteq> []
      \<longrightarrow> audit_sheet wh = Some rows
      \<longrightarrow> ?J (page_state w st) (n + length (page_files w (pageToken st)))
            (es @ page_events (checked (clock w (reads w)) wh) w st)"
    by (simp add: checkpointed_append walk_page page_state_def Let_def)
  from J0 page show ?thesis
  proof (cases rule: invocation_cases [where J = ?J and w = w])
    case stored_finalizing
    then show ?thesis by (simp add: quiet_checkpointed)
  next
    case (finished st n es)
    then show ?thesis by (simp add: checkpointed_append quiet_checkpointed)
  next
    case (batch_full st n es)
    then show ?thesis by (simp add: checkpointed_append quiet_checkpointed)
  next
    case (exceeded st n es e)
    then show ?thesis
      by (simp add: checkpointed_append quiet_checkpointed up_to_date_def)
  next
    case (no_files st n es e)
    then show ?thesis
      by (simp add: checkpointed_append quiet_checkpointed up_to_date_def cursor_is_def)
  next
    case (no_sheet st n es e)
    then show ?thesis
      by (simp add: checkpointed_append quiet_checkpointed up_to_date_def cursor_is_def)
  qed
qed

text \<open>
  A fresh job of two pages: the state is saved by the setup and after each page, before the
  next fetch.
\<close>

theorem state_saved_after_every_page_witness:
  "filter (\<lambda>x. is_fetch x \<or> is_save x)
     (events_since two_page_world (processDriveAuditBatch two_page_world)) =
     [SetProperty \<lparr>phase = PROCESSING, totalFilesFound = 0, filesProcessed = 0,
                   auditDataCount = 0, pageToken = None, startTime = 0\<rparr>,
      ListFiles None 100,
      SetProperty \<lparr>phase = PROCESSING, totalFilesFound = 0, filesProcessed = 1,
                   auditDataCount = 2, pageToken = Some ''p2'', startTime = 0\<rparr>,
      ListFiles (Some ''p2'') 100,
      SetProperty \<lparr>phase = FINALIZING, totalFilesFound = 0, filesProcessed = 3,
                   auditDataCount = 6, pageToken = None, startTime = 0\<rparr>]
   \<and> checkpointed None 0 0 (events_since two_page_world (processDriveAuditBatch two_page_world))"
proof -
  have a: "filter (\<lambda>x. is_fetch x \<or> is_save x)
     (events_since two_page_world (processDriveAuditBatch two_page_world)) =
     [SetProperty \<lparr>phase = PROCESSING, totalFilesFound = 0, filesProcessed = 0,
                   auditDataCount = 0, pageToken = None, startTime = 0\<rparr>,
      ListFiles None 100,
      SetProperty \<lparr>phase = PROCESSING, totalFilesFound = 0, filesProcessed = 1,
                   auditDataCount = 2, pageToken = Some ''p2'', startTime = 0\<rparr>,
      ListFiles (Some ''p2'') 100,
      SetProperty \<lparr>phase = FINALIZING, totalFilesFound = 0, filesProcessed = 3,
                   auditDataCount = 6, pageToken = None, startTime = 0\<rparr>]"
    by (simp add: two_page_world_def run_defs example_file_def example_permission_def
          file_rows_def)
  have b: "AUDIT_STATE two_page_world = None" "filesProcessed (loaded two_page_world) = 0"
    "auditDataCount (loaded two_page_world) = 0"
    by (simp_all add: two_page_world_def example_world_def loaded_def)
  show ?thesis
    using state_saved_after_every_page [of two_page_world] a b by simp
qed

subsection \<open>C10: the cap of 500 files per invocation\<close>

text \<open>
  Claim C10. The source states the cap in a comment, \<^verbatim>\<open>Process up to 500 files at a time\<close>
  (line 226), but the loop tests \<^verbatim>\<open>filesInThisBatch < BATCH_SIZE\<close> only between pages,
  and a page may hold fewer files than the 100 asked for. A fresh job on a drive whose
  pages hold 99 files each: after five pages 495 files are below the cap, a sixth page is
  processed, and the invocation has processed 594 files, with no budget check exceeded. The
  state it stores is in \<^verbatim>\<open>PROCESSING\<close> with \<^verbatim>\<open>filesProcessed\<close> 594, and one
  continuation is scheduled.
\<close>

theorem batch_cap_overrun:
  "BATCH_SIZE = 500
   \<and> AUDIT_STATE partial_pages_world = None
   \<and> (\<forall>t. length (page_files partial_pages_world t) = 99)
   \<and> \<not> list_ex over_budget
       (events_since partial_pages_world (processDriveAuditBatch partial_pages_world))
   \<and> items_processed
       (events_since partial_pages_world (processDriveAuditBatch partial_pages_world)) = 594
   \<and> map_option filesProcessed (AUDIT_STATE (processDriveAuditBatch partial_pages_world))
       = Some 594
   \<and> map_option phase (AUDIT_STATE (processDriveAuditBatch partial_pages_world))
       = Some PROCESSING
   \<and> continuations (processDriveAuditBatch partial_pages_world) = [''processDriveAuditBatch'']"
proof -
  have "\<forall>t. length (page_files partial_pages_world t) = 99"
    by (simp add: partial_pages_world_def example_world_def page_files_def)
  moreover have "AUDIT_STATE partial_pages_world = None"
    by (simp add: partial_pages_world_def example_world_def)
  ultimately show ?thesis
    using partial_pages_run by (auto simp: BATCH_SIZE_def)
qed

end
